theory Spec2Isabelle
  imports Main "HOL-Library.Char_ord" "HOL-Library.List_Lexorder" "HOL-Library.AList"
    "HOL-Library.Sublist"
begin

section \<open>Python values\<close>

text \<open>
  The eight annotation classes of \<^verbatim>\<open>TYPE_OF_ALIASES\<close> (json.py). They are named tuples
  declared in \<^verbatim>\<open>core.py\<close>; the field names of each class are not part of the two
  modelled files, so every function that needs them takes the table
  \<open>fields_of\<close> as an argument.
\<close>

datatype entity_type =
  Text | Hypothesis | Goal | Message | Sentence | Goals | Messages | RichSentence

text \<open>
  The Python objects the serializers and the cache handle: \<^verbatim>\<open>None\<close>, integers, strings,
  lists, plain tuples, dictionaries with string keys (an association list in insertion
  order; a Python dictionary never holds a key twice) and instances of the annotation
  classes (a class and the field values in declared order).
\<close>

datatype pyval =
    VNone
  | VInt int
  | VStr string
  | VList "pyval list"
  | VTuple "pyval list"
  | VDict "(string \<times> pyval) list"
  | VEntity entity_type "pyval list"

text \<open>
  The arguments of \<^verbatim>\<open>MSG.format(...)\<close> in an error message: a string inserted as it is
  (\<^verbatim>\<open>{}\<close>), the \<^verbatim>\<open>repr\<close> of a string (\<^verbatim>\<open>{!r}\<close>), and
  \<^verbatim>\<open>sep.join(map(repr, xs))\<close>. The text of \<^verbatim>\<open>repr\<close> is not spelled out.
\<close>

datatype fmt = Raw string | Repr string | JoinRepr string "string list"

text \<open>
  The exceptions raised by the modelled code; \<^verbatim>\<open>argparse.ArgumentTypeError\<close> carries
  its message as the template and the arguments it is formatted with.
\<close>

datatype error =
    AssertionError
  | KeyError
  | TypeError
  | IndexError
  | AttributeError
  | ValueError
  | ArgumentTypeError string "fmt list"

type_synonym fields = "entity_type \<Rightarrow> string list"

text \<open>\<^verbatim>\<open>ALIASES_OF_TYPE\<close> and \<^verbatim>\<open>TYPE_OF_ALIASES\<close>.\<close>

fun alias_of :: "entity_type \<Rightarrow> string" where
  "alias_of Text = ''text''"
| "alias_of Hypothesis = ''hypothesis''"
| "alias_of Goal = ''goal''"
| "alias_of Message = ''message''"
| "alias_of Sentence = ''sentence''"
| "alias_of Goals = ''goals''"
| "alias_of Messages = ''messages''"
| "alias_of RichSentence = ''rich_sentence''"

definition TYPE_OF_ALIASES :: "(string \<times> entity_type) list" where
  "TYPE_OF_ALIASES =
     [(''text'', Text), (''hypothesis'', Hypothesis), (''goal'', Goal),
      (''message'', Message), (''sentence'', Sentence), (''goals'', Goals),
      (''messages'', Messages), (''rich_sentence'', RichSentence)]"

text \<open>Truth value of an object, as \<^verbatim>\<open>if type_name:\<close> tests it.\<close>

fun py_truthy :: "pyval \<Rightarrow> bool" where
  "py_truthy VNone = False"
| "py_truthy (VInt i) = (i \<noteq> 0)"
| "py_truthy (VStr s) = (s \<noteq> [])"
| "py_truthy (VList xs) = (xs \<noteq> [])"
| "py_truthy (VTuple xs) = (xs \<noteq> [])"
| "py_truthy (VDict kvs) = (kvs \<noteq> [])"
| "py_truthy (VEntity c xs) = (xs \<noteq> [])"

text \<open>
  Whether an object can be a dictionary key: lists and dictionaries cannot, tuples and
  named tuples can when all their elements can.
\<close>

fun py_hashable :: "pyval \<Rightarrow> bool"
  and py_hashable_list :: "pyval list \<Rightarrow> bool"
where
  "py_hashable (VList xs) = False"
| "py_hashable (VDict kvs) = False"
| "py_hashable (VTuple xs) = py_hashable_list xs"
| "py_hashable (VEntity c xs) = py_hashable_list xs"
| "py_hashable VNone = True"
| "py_hashable (VInt i) = True"
| "py_hashable (VStr s) = True"
| "py_hashable_list [] = True"
| "py_hashable_list (x # xs) = (py_hashable x \<and> py_hashable_list xs)"

text \<open>
  \<^verbatim>\<open>TYPE_OF_ALIASES[type_name]\<close>: an unhashable key raises \<^verbatim>\<open>TypeError\<close>, and a key
  that is not a string of the table raises \<^verbatim>\<open>KeyError\<close>.
\<close>

fun type_of_alias :: "pyval \<Rightarrow> error + entity_type" where
  "type_of_alias (VStr s) =
     (case map_of TYPE_OF_ALIASES s of None \<Rightarrow> Inl KeyError | Some c \<Rightarrow> Inr c)"
| "type_of_alias v = (if py_hashable v then Inl KeyError else Inl TypeError)"

text \<open>
  Calling a named-tuple class: \<^verbatim>\<open>cls(**kw)\<close> needs exactly the declared fields as
  keywords, \<^verbatim>\<open>cls(*args)\<close> exactly as many positional arguments as fields; anything
  else raises \<^verbatim>\<open>TypeError\<close>.
\<close>

definition new_kw :: "fields \<Rightarrow> entity_type \<Rightarrow> (string \<times> pyval) list \<Rightarrow> error + pyval" where
  "new_kw fields_of c kw =
     (case those (map (map_of kw) (fields_of c)) of
        None \<Rightarrow> Inl TypeError
      | Some vs \<Rightarrow>
          if list_all (\<lambda>k. k \<in> set (fields_of c)) (map fst kw)
          then Inr (VEntity c vs) else Inl TypeError)"

definition new_pos :: "fields \<Rightarrow> entity_type \<Rightarrow> pyval list \<Rightarrow> error + pyval" where
  "new_pos fields_of c args =
     (if length args = length (fields_of c) then Inr (VEntity c args) else Inl TypeError)"

section \<open>PlainSerializer\<close>

fun plain_encode :: "fields \<Rightarrow> pyval \<Rightarrow> error + pyval"
  and plain_encode_list :: "fields \<Rightarrow> pyval list \<Rightarrow> error + pyval list"
  and plain_encode_items ::
    "fields \<Rightarrow> (string \<times> pyval) list \<Rightarrow> error + (string \<times> pyval) list"
where
  "plain_encode F (VList xs) =
     (case plain_encode_list F xs of Inl e \<Rightarrow> Inl e | Inr ys \<Rightarrow> Inr (VList ys))"
| "plain_encode F (VDict kvs) =
     (if ''_type'' \<in> set (map fst kvs) then Inl AssertionError
      else case plain_encode_items F kvs of Inl e \<Rightarrow> Inl e | Inr js \<Rightarrow> Inr (VDict js))"
| "plain_encode F (VEntity c vs) =
     (case plain_encode_list F vs of
        Inl e \<Rightarrow> Inl e
      | Inr ws \<Rightarrow>
          Inr (VDict (fold (\<lambda>(k, w) d. AList.update k w d) (zip (F c) ws)
                        [(''_type'', VStr (alias_of c))])))"
| "plain_encode F (VTuple xs) = Inl AssertionError"
| "plain_encode F VNone = Inr VNone"
| "plain_encode F (VInt i) = Inr (VInt i)"
| "plain_encode F (VStr s) = Inr (VStr s)"
| "plain_encode_list F [] = Inr []"
| "plain_encode_list F (x # xs) =
     (case plain_encode F x of
        Inl e \<Rightarrow> Inl e
      | Inr y \<Rightarrow> (case plain_encode_list F xs of Inl e \<Rightarrow> Inl e | Inr ys \<Rightarrow> Inr (y # ys)))"
| "plain_encode_items F [] = Inr []"
| "plain_encode_items F ((k, v) # kvs) =
     (case plain_encode F v of
        Inl e \<Rightarrow> Inl e
      | Inr w \<Rightarrow>
          (case plain_encode_items F kvs of Inl e \<Rightarrow> Inl e | Inr js \<Rightarrow> Inr ((k, w) # js)))"

fun plain_decode :: "fields \<Rightarrow> pyval \<Rightarrow> error + pyval"
  and plain_decode_list :: "fields \<Rightarrow> pyval list \<Rightarrow> error + pyval list"
  and plain_decode_items ::
    "fields \<Rightarrow> (string \<times> pyval) list \<Rightarrow> error + (string \<times> pyval) list"
where
  "plain_decode F (VList xs) =
     (case plain_decode_list F xs of Inl e \<Rightarrow> Inl e | Inr ys \<Rightarrow> Inr (VList ys))"
| "plain_decode F (VDict kvs) =
     (case plain_decode_items F kvs of
        Inl e \<Rightarrow> Inl e
      | Inr obj \<Rightarrow>
          (case map_of obj ''_type'' of
             None \<Rightarrow> Inr (VDict obj)
           | Some type_name \<Rightarrow>
               if py_truthy type_name
               then (case type_of_alias type_name of
                       Inl e \<Rightarrow> Inl e
                     | Inr c \<Rightarrow> new_kw F c (AList.delete ''_type'' obj))
               else Inr (VDict (AList.delete ''_type'' obj))))"
| "plain_decode F VNone = Inr VNone"
| "plain_decode F (VInt i) = Inr (VInt i)"
| "plain_decode F (VStr s) = Inr (VStr s)"
| "plain_decode F (VTuple xs) = Inr (VTuple xs)"
| "plain_decode F (VEntity c vs) = Inr (VEntity c vs)"
| "plain_decode_list F [] = Inr []"
| "plain_decode_list F (x # xs) =
     (case plain_decode F x of
        Inl e \<Rightarrow> Inl e
      | Inr y \<Rightarrow> (case plain_decode_list F xs of Inl e \<Rightarrow> Inl e | Inr ys \<Rightarrow> Inr (y # ys)))"
| "plain_decode_items F [] = Inr []"
| "plain_decode_items F ((k, v) # kvs) =
     (case plain_decode F v of
        Inl e \<Rightarrow> Inl e
      | Inr w \<Rightarrow>
          (case plain_decode_items F kvs of Inl e \<Rightarrow> Inl e | Inr js \<Rightarrow> Inr ((k, w) # js)))"

section \<open>DeduplicatingSerializer\<close>

text \<open>
  \<^verbatim>\<open>pickle.dumps(obj)\<close> is the standard library's serializer, used only as a dictionary
  key. Its output records the content of the object (for dictionaries in insertion
  order) and, through its memo, which of the sub-objects are one and the same object.
  Values are modelled as trees, without object identity, so the key of a value is taken
  to be its content. Two objects with the same key always have the same content; the
  model does not tell apart objects of equal content whose sub-objects are shared
  differently, to which \<^verbatim>\<open>pickle\<close> gives different keys. A statement about two objects
  entered under one key therefore assumes that their keys are equal.
\<close>

definition pickle_dumps :: "pyval \<Rightarrow> pyval" where
  "pickle_dumps obj = obj"

text \<open>
  \<^verbatim>\<open>sorted(obj.items())\<close>: the keys of a dictionary are pairwise different, so the
  pairs are ordered by their keys alone (strings compare by code points).
\<close>

definition sorted_items :: "(string \<times> pyval) list \<Rightarrow> (string \<times> pyval) list" where
  "sorted_items kvs = sort_key fst kvs"

lemma size_list_insort_key [termination_simp]:
  "size_list f (insort_key g x xs) = Suc (f x + size_list f xs)"
  by (induction xs) auto

lemma size_list_sort_key [termination_simp]:
  "size_list f (sort_key g xs) = size_list f xs"
  by (induction xs) (auto simp: size_list_insort_key)

lemma size_list_sorted_items [termination_simp]:
  "size_list f (sorted_items kvs) = size_list f kvs"
  by (simp add: sorted_items_def size_list_sort_key)

text \<open>The encoder's \<^verbatim>\<open>obj_table\<close>: a dictionary from pickled objects to indices.\<close>

type_synonym obj_table = "(pyval \<times> nat) list"

definition pointer :: "nat \<Rightarrow> pyval" where
  "pointer n = VDict [(''*'', VInt (int n))]"

definition reference :: "string \<Rightarrow> pyval list \<Rightarrow> pyval" where
  "reference type_name ws = VDict [(''&'', VStr type_name), (''_'', VList ws)]"

fun dedup_enc :: "obj_table \<Rightarrow> pyval \<Rightarrow> error + pyval \<times> obj_table"
  and dedup_enc_list :: "obj_table \<Rightarrow> pyval list \<Rightarrow> error + pyval list \<times> obj_table"
  and dedup_enc_items ::
    "obj_table \<Rightarrow> (string \<times> pyval) list \<Rightarrow> error + (string \<times> pyval) list \<times> obj_table"
where
  "dedup_enc T (VList xs) =
     (case dedup_enc_list T xs of Inl e \<Rightarrow> Inl e | Inr (ys, T') \<Rightarrow> Inr (VList ys, T'))"
| "dedup_enc T (VDict kvs) =
     (if ''*'' \<in> set (map fst kvs) \<or> ''&'' \<in> set (map fst kvs) then Inl AssertionError
      else case dedup_enc_items T (sorted_items kvs) of
             Inl e \<Rightarrow> Inl e
           | Inr (js, T') \<Rightarrow> Inr (VDict js, T'))"
| "dedup_enc T (VEntity c vs) =
     (case map_of T (pickle_dumps (VEntity c vs)) of
        Some n \<Rightarrow> Inr (pointer n, T)
      | None \<Rightarrow>
          (case dedup_enc_list T vs of
             Inl e \<Rightarrow> Inl e
           | Inr (ws, T') \<Rightarrow>
               Inr (reference (alias_of c) ws,
                    AList.update (pickle_dumps (VEntity c vs)) (length T') T')))"
| "dedup_enc T (VTuple xs) = Inl AssertionError"
| "dedup_enc T VNone = Inr (VNone, T)"
| "dedup_enc T (VInt i) = Inr (VInt i, T)"
| "dedup_enc T (VStr s) = Inr (VStr s, T)"
| "dedup_enc_list T [] = Inr ([], T)"
| "dedup_enc_list T (x # xs) =
     (case dedup_enc T x of
        Inl e \<Rightarrow> Inl e
      | Inr (y, T') \<Rightarrow>
          (case dedup_enc_list T' xs of
             Inl e \<Rightarrow> Inl e
           | Inr (ys, T'') \<Rightarrow> Inr (y # ys, T'')))"
| "dedup_enc_items T [] = Inr ([], T)"
| "dedup_enc_items T ((k, v) # kvs) =
     (case dedup_enc T v of
        Inl e \<Rightarrow> Inl e
      | Inr (w, T') \<Rightarrow>
          (case dedup_enc_items T' kvs of
             Inl e \<Rightarrow> Inl e
           | Inr (js, T'') \<Rightarrow> Inr ((k, w) # js, T'')))"

definition dedup_encode :: "pyval \<Rightarrow> error + pyval" where
  "dedup_encode obj = map_sum id fst (dedup_enc [] obj)"

text \<open>
  \<^verbatim>\<open>obj_table[i]\<close> on a list: an integer index counts from the end when negative and
  raises \<^verbatim>\<open>IndexError\<close> out of range; any other index raises \<^verbatim>\<open>TypeError\<close>.
\<close>

fun list_getitem :: "pyval list \<Rightarrow> pyval \<Rightarrow> error + pyval" where
  "list_getitem xs (VInt i) =
     (let j = (if i < 0 then i + int (length xs) else i)
      in if 0 \<le> j \<and> j < int (length xs) then Inr (xs ! nat j) else Inl IndexError)"
| "list_getitem xs v = Inl TypeError"

text \<open>A deep copy of a value is an equal value; sharing is not represented.\<close>

definition deepcopy :: "pyval \<Rightarrow> pyval" where
  "deepcopy obj = obj"

lemma size_map_of [termination_simp]:
  "map_of kvs k = Some v \<Longrightarrow> size v < size_list (size_prod (\<lambda>x. 0) size) kvs"
  by (induction kvs) (auto split: if_splits)

text \<open>
  \<^verbatim>\<open>TYPE_OF_ALIASES[js["&"]](*(decode(v) for v in js["_"]))\<close> followed by
  \<^verbatim>\<open>obj_table.append(obj)\<close>, once the arguments are decoded.
\<close>

definition dedup_new ::
  "fields \<Rightarrow> entity_type \<Rightarrow> error + pyval list \<times> pyval list \<Rightarrow> error + pyval \<times> pyval list" where
  "dedup_new F c r =
     (case r of
        Inl e \<Rightarrow> Inl e
      | Inr (args, D') \<Rightarrow>
          (case new_pos F c args of Inl e \<Rightarrow> Inl e | Inr obj \<Rightarrow> Inr (obj, D' @ [obj])))"

text \<open>
  The value of \<^verbatim>\<open>"_"\<close> is iterated by the generator expression. Lists, tuples and
  named tuples yield their elements; a string yields its characters and a dictionary its
  keys, all of them strings, which \<^verbatim>\<open>decode\<close> returns unchanged; \<^verbatim>\<open>None\<close> and
  integers are not iterable.
\<close>

function dedup_dec :: "bool \<Rightarrow> fields \<Rightarrow> pyval list \<Rightarrow> pyval \<Rightarrow> error + pyval \<times> pyval list"
  and dedup_dec_list ::
    "bool \<Rightarrow> fields \<Rightarrow> pyval list \<Rightarrow> pyval list \<Rightarrow> error + pyval list \<times> pyval list"
  and dedup_dec_items ::
    "bool \<Rightarrow> fields \<Rightarrow> pyval list \<Rightarrow> (string \<times> pyval) list
       \<Rightarrow> error + (string \<times> pyval) list \<times> pyval list"
where
  "dedup_dec copy F D (VList xs) =
     (case dedup_dec_list copy F D xs of Inl e \<Rightarrow> Inl e | Inr (ys, D') \<Rightarrow> Inr (VList ys, D'))"
| "dedup_dec copy F D (VDict js) =
     (case map_of js ''*'' of
        Some i \<Rightarrow>
          (case list_getitem D i of
             Inl e \<Rightarrow> Inl e
           | Inr obj \<Rightarrow> Inr (if copy then deepcopy obj else obj, D))
      | None \<Rightarrow>
          (case map_of js ''&'' of
             Some type_name \<Rightarrow>
               (case type_of_alias type_name of
                  Inl e \<Rightarrow> Inl e
                | Inr c \<Rightarrow>
                    (case map_of js ''_'' of
                       None \<Rightarrow> Inl KeyError
                     | Some VNone \<Rightarrow> Inl TypeError
                     | Some (VInt i) \<Rightarrow> Inl TypeError
                     | Some (VStr s) \<Rightarrow> dedup_new F c (Inr (map (\<lambda>ch. VStr [ch]) s, D))
                     | Some (VDict d) \<Rightarrow> dedup_new F c (Inr (map (\<lambda>p. VStr (fst p)) d, D))
                     | Some (VList vs) \<Rightarrow> dedup_new F c (dedup_dec_list copy F D vs)
                     | Some (VTuple vs) \<Rightarrow> dedup_new F c (dedup_dec_list copy F D vs)
                     | Some (VEntity c' vs) \<Rightarrow> dedup_new F c (dedup_dec_list copy F D vs)))
           | None \<Rightarrow>
               (case dedup_dec_items copy F D (sorted_items js) of
                  Inl e \<Rightarrow> Inl e
                | Inr (kvs, D') \<Rightarrow> Inr (VDict kvs, D'))))"
| "dedup_dec copy F D VNone = Inr (VNone, D)"
| "dedup_dec copy F D (VInt i) = Inr (VInt i, D)"
| "dedup_dec copy F D (VStr s) = Inr (VStr s, D)"
| "dedup_dec copy F D (VTuple xs) = Inr (VTuple xs, D)"
| "dedup_dec copy F D (VEntity c vs) = Inr (VEntity c vs, D)"
| "dedup_dec_list copy F D [] = Inr ([], D)"
| "dedup_dec_list copy F D (x # xs) =
     (case dedup_dec copy F D x of
        Inl e \<Rightarrow> Inl e
      | Inr (y, D') \<Rightarrow>
          (case dedup_dec_list copy F D' xs of
             Inl e \<Rightarrow> Inl e
           | Inr (ys, D'') \<Rightarrow> Inr (y # ys, D'')))"
| "dedup_dec_items copy F D [] = Inr ([], D)"
| "dedup_dec_items copy F D ((k, v) # kvs) =
     (case dedup_dec copy F D v of
        Inl e \<Rightarrow> Inl e
      | Inr (w, D') \<Rightarrow>
          (case dedup_dec_items copy F D' kvs of
             Inl e \<Rightarrow> Inl e
           | Inr (js, D'') \<Rightarrow> Inr ((k, w) # js, D'')))"
  by pat_completeness auto

definition dedup_measure ::
  "bool \<times> fields \<times> pyval list \<times> pyval + bool \<times> fields \<times> pyval list \<times> pyval list
     + bool \<times> fields \<times> pyval list \<times> (string \<times> pyval) list \<Rightarrow> nat" where
  "dedup_measure a =
     (case a of
        Inl (_, _, _, v) \<Rightarrow> size v
      | Inr (Inl (_, _, _, vs)) \<Rightarrow> size_list size vs
      | Inr (Inr (_, _, _, kvs)) \<Rightarrow> size_list (size_prod (\<lambda>x. 0) size) kvs)"

termination dedup_dec
  by (relation "measure dedup_measure")
    (auto simp: dedup_measure_def size_list_sorted_items dest: size_map_of)

definition dedup_decode :: "fields \<Rightarrow> pyval \<Rightarrow> bool \<Rightarrow> error + pyval" where
  "dedup_decode F js copy = map_sum id fst (dedup_dec copy F [] js)"

section \<open>FullyDeduplicatingSerializer\<close>

function fully_enc :: "obj_table \<Rightarrow> pyval \<Rightarrow> error + pyval \<times> obj_table"
  and fully_enc_inner :: "obj_table \<Rightarrow> pyval \<Rightarrow> error + pyval \<times> obj_table"
  and fully_enc_list :: "obj_table \<Rightarrow> pyval list \<Rightarrow> error + pyval list \<times> obj_table"
  and fully_enc_items ::
    "obj_table \<Rightarrow> (string \<times> pyval) list \<Rightarrow> error + (string \<times> pyval) list \<times> obj_table"
where
  "fully_enc T obj =
     (case map_of T (pickle_dumps obj) of
        Some ref \<Rightarrow> Inr (pointer ref, T)
      | None \<Rightarrow>
          (case fully_enc_inner T obj of
             Inl e \<Rightarrow> Inl e
           | Inr (val, T') \<Rightarrow> Inr (val, AList.update (pickle_dumps obj) (length T') T')))"
| "fully_enc_inner T (VList xs) =
     (case fully_enc_list T xs of Inl e \<Rightarrow> Inl e | Inr (ys, T') \<Rightarrow> Inr (VList ys, T'))"
| "fully_enc_inner T (VDict kvs) =
     (if ''*'' \<in> set (map fst kvs) \<or> ''&'' \<in> set (map fst kvs) then Inl AssertionError
      else case fully_enc_items T (sorted_items kvs) of
             Inl e \<Rightarrow> Inl e
           | Inr (js, T') \<Rightarrow> Inr (VDict js, T'))"
| "fully_enc_inner T (VEntity c vs) =
     (case fully_enc_list T vs of
        Inl e \<Rightarrow> Inl e
      | Inr (ws, T') \<Rightarrow> Inr (reference (alias_of c) ws, T'))"
| "fully_enc_inner T (VTuple xs) = Inl AssertionError"
| "fully_enc_inner T VNone = Inr (VNone, T)"
| "fully_enc_inner T (VInt i) = Inr (VInt i, T)"
| "fully_enc_inner T (VStr s) = Inr (VStr s, T)"
| "fully_enc_list T [] = Inr ([], T)"
| "fully_enc_list T (x # xs) =
     (case fully_enc T x of
        Inl e \<Rightarrow> Inl e
      | Inr (y, T') \<Rightarrow>
          (case fully_enc_list T' xs of
             Inl e \<Rightarrow> Inl e
           | Inr (ys, T'') \<Rightarrow> Inr (y # ys, T'')))"
| "fully_enc_items T [] = Inr ([], T)"
| "fully_enc_items T ((k, v) # kvs) =
     (case fully_enc T v of
        Inl e \<Rightarrow> Inl e
      | Inr (w, T') \<Rightarrow>
          (case fully_enc_items T' kvs of
             Inl e \<Rightarrow> Inl e
           | Inr (js, T'') \<Rightarrow> Inr ((k, w) # js, T'')))"
  by pat_completeness auto

definition fully_enc_measure ::
  "(obj_table \<times> pyval + obj_table \<times> pyval) + (obj_table \<times> pyval list
     + obj_table \<times> (string \<times> pyval) list) \<Rightarrow> nat" where
  "fully_enc_measure a =
     (case a of
        Inl (Inl (_, v)) \<Rightarrow> 2 * size v + 1
      | Inl (Inr (_, v)) \<Rightarrow> 2 * size v
      | Inr (Inl (_, vs)) \<Rightarrow> 2 * size_list size vs
      | Inr (Inr (_, kvs)) \<Rightarrow> 2 * size_list (size_prod (\<lambda>x. 0) size) kvs)"

termination fully_enc
  by (relation "measure fully_enc_measure")
    (auto simp: fully_enc_measure_def size_list_sorted_items)

definition fully_encode :: "pyval \<Rightarrow> error + pyval" where
  "fully_encode obj = map_sum id fst (fully_enc [] obj)"

text \<open>\<^verbatim>\<open>obj_table.append(obj); return obj\<close> after \<^verbatim>\<open>_decode\<close>.\<close>

definition fully_append :: "error + pyval \<times> pyval list \<Rightarrow> error + pyval \<times> pyval list" where
  "fully_append r = (case r of Inl e \<Rightarrow> Inl e | Inr (obj, D') \<Rightarrow> Inr (obj, D' @ [obj]))"

definition fully_new ::
  "fields \<Rightarrow> entity_type \<Rightarrow> error + pyval list \<times> pyval list \<Rightarrow> error + pyval \<times> pyval list" where
  "fully_new F c r =
     (case r of
        Inl e \<Rightarrow> Inl e
      | Inr (args, D') \<Rightarrow>
          (case new_pos F c args of Inl e \<Rightarrow> Inl e | Inr obj \<Rightarrow> Inr (obj, D')))"

text \<open>
  In this decoder every decoded value is appended to the table, so the characters of a
  string and the keys of a dictionary iterated as the value of \<^verbatim>\<open>"_"\<close> are appended
  one by one.
\<close>

function fully_dec :: "bool \<Rightarrow> fields \<Rightarrow> pyval list \<Rightarrow> pyval \<Rightarrow> error + pyval \<times> pyval list"
  and fully_dec_inner ::
    "bool \<Rightarrow> fields \<Rightarrow> pyval list \<Rightarrow> pyval \<Rightarrow> error + pyval \<times> pyval list"
  and fully_dec_list ::
    "bool \<Rightarrow> fields \<Rightarrow> pyval list \<Rightarrow> pyval list \<Rightarrow> error + pyval list \<times> pyval list"
  and fully_dec_items ::
    "bool \<Rightarrow> fields \<Rightarrow> pyval list \<Rightarrow> (string \<times> pyval) list
       \<Rightarrow> error + (string \<times> pyval) list \<times> pyval list"
where
  "fully_dec copy F D js =
     (case (case js of VDict d \<Rightarrow> map_of d ''*'' | _ \<Rightarrow> None) of
        Some i \<Rightarrow>
          (case list_getitem D i of
             Inl e \<Rightarrow> Inl e
           | Inr obj \<Rightarrow> Inr (if copy then deepcopy obj else obj, D))
      | None \<Rightarrow> fully_append (fully_dec_inner copy F D js))"
| "fully_dec_inner copy F D (VList xs) =
     (case fully_dec_list copy F D xs of Inl e \<Rightarrow> Inl e | Inr (ys, D') \<Rightarrow> Inr (VList ys, D'))"
| "fully_dec_inner copy F D (VDict js) =
     (case map_of js ''&'' of
        Some type_name \<Rightarrow>
          (case type_of_alias type_name of
             Inl e \<Rightarrow> Inl e
           | Inr c \<Rightarrow>
               (case map_of js ''_'' of
                  None \<Rightarrow> Inl KeyError
                | Some VNone \<Rightarrow> Inl TypeError
                | Some (VInt i) \<Rightarrow> Inl TypeError
                | Some (VStr s) \<Rightarrow>
                    fully_new F c
                      (Inr (map (\<lambda>ch. VStr [ch]) s, D @ map (\<lambda>ch. VStr [ch]) s))
                | Some (VDict d) \<Rightarrow>
                    fully_new F c
                      (Inr (map (\<lambda>p. VStr (fst p)) d, D @ map (\<lambda>p. VStr (fst p)) d))
                | Some (VList vs) \<Rightarrow> fully_new F c (fully_dec_list copy F D vs)
                | Some (VTuple vs) \<Rightarrow> fully_new F c (fully_dec_list copy F D vs)
                | Some (VEntity c' vs) \<Rightarrow> fully_new F c (fully_dec_list copy F D vs)))
      | None \<Rightarrow>
          (case fully_dec_items copy F D (sorted_items js) of
             Inl e \<Rightarrow> Inl e
           | Inr (kvs, D') \<Rightarrow> Inr (VDict kvs, D')))"
| "fully_dec_inner copy F D VNone = Inr (VNone, D)"
| "fully_dec_inner copy F D (VInt i) = Inr (VInt i, D)"
| "fully_dec_inner copy F D (VStr s) = Inr (VStr s, D)"
| "fully_dec_inner copy F D (VTuple xs) = Inr (VTuple xs, D)"
| "fully_dec_inner copy F D (VEntity c vs) = Inr (VEntity c vs, D)"
| "fully_dec_list copy F D [] = Inr ([], D)"
| "fully_dec_list copy F D (x # xs) =
     (case fully_dec copy F D x of
        Inl e \<Rightarrow> Inl e
      | Inr (y, D') \<Rightarrow>
          (case fully_dec_list copy F D' xs of
             Inl e \<Rightarrow> Inl e
           | Inr (ys, D'') \<Rightarrow> Inr (y # ys, D'')))"
| "fully_dec_items copy F D [] = Inr ([], D)"
| "fully_dec_items copy F D ((k, v) # kvs) =
     (case fully_dec copy F D v of
        Inl e \<Rightarrow> Inl e
      | Inr (w, D') \<Rightarrow>
          (case fully_dec_items copy F D' kvs of
             Inl e \<Rightarrow> Inl e
           | Inr (js, D'') \<Rightarrow> Inr ((k, w) # js, D'')))"
  by pat_completeness auto

definition fully_dec_measure ::
  "(bool \<times> fields \<times> pyval list \<times> pyval + bool \<times> fields \<times> pyval list \<times> pyval)
     + (bool \<times> fields \<times> pyval list \<times> pyval list
     + bool \<times> fields \<times> pyval list \<times> (string \<times> pyval) list) \<Rightarrow> nat" where
  "fully_dec_measure a =
     (case a of
        Inl (Inl (_, _, _, v)) \<Rightarrow> 2 * size v + 1
      | Inl (Inr (_, _, _, v)) \<Rightarrow> 2 * size v
      | Inr (Inl (_, _, _, vs)) \<Rightarrow> 2 * size_list size vs
      | Inr (Inr (_, _, _, kvs)) \<Rightarrow> 2 * size_list (size_prod (\<lambda>x. 0) size) kvs)"

termination fully_dec
  by (relation "measure fully_dec_measure")
    (auto simp: fully_dec_measure_def size_list_sorted_items dest: size_map_of)

definition fully_decode :: "fields \<Rightarrow> pyval \<Rightarrow> bool \<Rightarrow> error + pyval" where
  "fully_decode F js copy = map_sum id fst (fully_dec copy F [] js)"

section \<open>Values in the serializers' domain\<close>

definition TYPES :: "entity_type list" where
  "TYPES = map snd TYPE_OF_ALIASES"

definition fields_ok :: "fields \<Rightarrow> bool" where
  "fields_ok F = list_all (\<lambda>c. distinct (F c) \<and> ''_type'' \<notin> set (F c)) TYPES"

fun py_value :: "fields \<Rightarrow> pyval \<Rightarrow> bool"
  and py_value_list :: "fields \<Rightarrow> pyval list \<Rightarrow> bool"
  and py_value_items :: "fields \<Rightarrow> (string \<times> pyval) list \<Rightarrow> bool"
where
  "py_value F (VList xs) = py_value_list F xs"
| "py_value F (VDict kvs) = (distinct (map fst kvs) \<and> py_value_items F kvs)"
| "py_value F (VEntity c vs) = (length vs = length (F c) \<and> py_value_list F vs)"
| "py_value F (VTuple xs) = False"
| "py_value F VNone = True"
| "py_value F (VInt i) = True"
| "py_value F (VStr s) = True"
| "py_value_list F [] = True"
| "py_value_list F (x # xs) = (py_value F x \<and> py_value_list F xs)"
| "py_value_items F [] = True"
| "py_value_items F ((k, v) # kvs) = (py_value F v \<and> py_value_items F kvs)"

fun avoids :: "string list \<Rightarrow> pyval \<Rightarrow> bool"
  and avoids_list :: "string list \<Rightarrow> pyval list \<Rightarrow> bool"
  and avoids_items :: "string list \<Rightarrow> (string \<times> pyval) list \<Rightarrow> bool"
where
  "avoids R (VList xs) = avoids_list R xs"
| "avoids R (VDict kvs) = (set R \<inter> set (map fst kvs) = {} \<and> avoids_items R kvs)"
| "avoids R (VEntity c vs) = avoids_list R vs"
| "avoids R (VTuple xs) = avoids_list R xs"
| "avoids R VNone = True"
| "avoids R (VInt i) = True"
| "avoids R (VStr s) = True"
| "avoids_list R [] = True"
| "avoids_list R (x # xs) = (avoids R x \<and> avoids_list R xs)"
| "avoids_items R [] = True"
| "avoids_items R ((k, v) # kvs) = (avoids R v \<and> avoids_items R kvs)"

fun sort_dicts :: "pyval \<Rightarrow> pyval"
  and sort_dicts_list :: "pyval list \<Rightarrow> pyval list"
  and sort_dicts_items :: "(string \<times> pyval) list \<Rightarrow> (string \<times> pyval) list"
where
  "sort_dicts (VList xs) = VList (sort_dicts_list xs)"
| "sort_dicts (VTuple xs) = VTuple (sort_dicts_list xs)"
| "sort_dicts (VDict kvs) = VDict (sort_dicts_items (sorted_items kvs))"
| "sort_dicts (VEntity c vs) = VEntity c (sort_dicts_list vs)"
| "sort_dicts VNone = VNone"
| "sort_dicts (VInt i) = VInt i"
| "sort_dicts (VStr s) = VStr s"
| "sort_dicts_list [] = []"
| "sort_dicts_list (x # xs) = sort_dicts x # sort_dicts_list xs"
| "sort_dicts_items [] = []"
| "sort_dicts_items ((k, v) # kvs) = (k, sort_dicts v) # sort_dicts_items kvs"

definition struct_eq :: "pyval \<Rightarrow> pyval \<Rightarrow> bool" where
  "struct_eq a b = (sort_dicts a = sort_dicts b)"

definition tables_agree :: "obj_table \<Rightarrow> pyval list \<Rightarrow> bool" where
  "tables_agree T D \<longleftrightarrow>
     length T = length D \<and>
     (\<forall>k i. map_of T k = Some i \<longrightarrow> i < length D \<and> D ! i = sort_dicts k)"

definition new_keys_below :: "obj_table \<Rightarrow> obj_table \<Rightarrow> nat \<Rightarrow> bool" where
  "new_keys_below T T' n \<longleftrightarrow> (\<forall>k. map_of T' k \<noteq> None \<longrightarrow> map_of T k \<noteq> None \<or> size k < n)"

definition is_pointer :: "pyval \<Rightarrow> bool" where
  "is_pointer w = ((case w of VDict d \<Rightarrow> map_of d ''*'' | _ \<Rightarrow> None) \<noteq> None)"

text \<open>
  A field table and a value for evaluating the functions at concrete inputs. The table
  only has to respect what \<^verbatim>\<open>namedtuple\<close> enforces (distinct field names, none
  starting with an underscore).
\<close>

definition sample_fields :: fields where
  "sample_fields c =
     (case c of
        Text \<Rightarrow> [''contents'']
      | Hypothesis \<Rightarrow> [''names'', ''body'', ''type'']
      | Goal \<Rightarrow> [''name'', ''conclusion'', ''hypotheses'']
      | Message \<Rightarrow> [''contents'']
      | Sentence \<Rightarrow> [''contents'', ''messages'', ''goals'']
      | Goals \<Rightarrow> [''goals'']
      | Messages \<Rightarrow> [''messages'']
      | RichSentence \<Rightarrow> [''input'', ''outputs'', ''annots'', ''prefixes'', ''suffixes''])"

definition sample_value :: pyval where
  "sample_value =
     VList [VEntity Text [VStr ''x''], VDict [(''b'', VInt 1), (''a'', VNone)],
            VEntity Text [VStr ''x'']]"

text \<open>No pickled object of an encoder table holds a dictionary with a key of \<open>R\<close>.\<close>

definition keys_avoid :: "string list \<Rightarrow> obj_table \<Rightarrow> bool" where
  "keys_avoid R T \<longleftrightarrow> (\<forall>k. map_of T k \<noteq> None \<longrightarrow> avoids R k)"

definition reserved_value :: pyval where
  "reserved_value = VList [VDict [(''_type'', VNone), (''*'', VInt 0)]]"

text \<open>Values without annotation objects: primitives, lists and dictionaries only.\<close>

fun plain_data :: "pyval \<Rightarrow> bool"
  and plain_data_list :: "pyval list \<Rightarrow> bool"
  and plain_data_items :: "(string \<times> pyval) list \<Rightarrow> bool"
where
  "plain_data (VList xs) = plain_data_list xs"
| "plain_data (VDict kvs) = plain_data_items kvs"
| "plain_data (VEntity c vs) = False"
| "plain_data (VTuple xs) = False"
| "plain_data VNone = True"
| "plain_data (VInt i) = True"
| "plain_data (VStr s) = True"
| "plain_data_list [] = True"
| "plain_data_list (x # xs) = (plain_data x \<and> plain_data_list xs)"
| "plain_data_items [] = True"
| "plain_data_items ((k, v) # kvs) = (plain_data v \<and> plain_data_items kvs)"


text \<open>
  Python's \<^verbatim>\<open>==\<close> on these objects: lists and tuples compare elementwise, dictionaries as
  mappings (the insertion order does not count), and a named tuple compares as the plain
  tuple of its fields. Two objects are equal exactly when their canonical forms, with
  sorted dictionary keys and untagged tuples, coincide.
\<close>

fun eq_form :: "pyval \<Rightarrow> pyval"
  and eq_form_list :: "pyval list \<Rightarrow> pyval list"
  and eq_form_items :: "(string \<times> pyval) list \<Rightarrow> (string \<times> pyval) list"
where
  "eq_form (VList xs) = VList (eq_form_list xs)"
| "eq_form (VTuple xs) = VTuple (eq_form_list xs)"
| "eq_form (VDict kvs) = VDict (eq_form_items (sorted_items kvs))"
| "eq_form (VEntity c vs) = VTuple (eq_form_list vs)"
| "eq_form VNone = VNone"
| "eq_form (VInt i) = VInt i"
| "eq_form (VStr s) = VStr s"
| "eq_form_list [] = []"
| "eq_form_list (x # xs) = eq_form x # eq_form_list xs"
| "eq_form_items [] = []"
| "eq_form_items ((k, v) # kvs) = (k, eq_form v) # eq_form_items kvs"

definition py_eq :: "pyval \<Rightarrow> pyval \<Rightarrow> bool" where
  "py_eq a b = (eq_form a = eq_form b)"

text \<open>\<^verbatim>\<open>obj[key]\<close> with a string key, and \<^verbatim>\<open>obj.get(key, default)\<close>.\<close>

fun py_getitem :: "pyval \<Rightarrow> string \<Rightarrow> error + pyval" where
  "py_getitem (VDict kvs) k = (case map_of kvs k of None \<Rightarrow> Inl KeyError | Some v \<Rightarrow> Inr v)"
| "py_getitem v k = Inl TypeError"

fun py_get :: "pyval \<Rightarrow> string \<Rightarrow> pyval \<Rightarrow> error + pyval" where
  "py_get (VDict kvs) k d = (case map_of kvs k of None \<Rightarrow> Inr d | Some v \<Rightarrow> Inr v)"
| "py_get v k d = Inl AttributeError"

text \<open>Iterating an object, as \<^verbatim>\<open>list(obj)\<close> and \<^verbatim>\<open>f(*obj)\<close> do.\<close>

fun py_iter :: "pyval \<Rightarrow> error + pyval list" where
  "py_iter (VList xs) = Inr xs"
| "py_iter (VTuple xs) = Inr xs"
| "py_iter (VEntity c xs) = Inr xs"
| "py_iter (VStr s) = Inr (map (\<lambda>ch. VStr [ch]) s)"
| "py_iter (VDict kvs) = Inr (map (\<lambda>p. VStr (fst p)) kvs)"
| "py_iter VNone = Inl TypeError"
| "py_iter (VInt i) = Inl TypeError"

record cache =
  data :: pyval
  cache_file :: "string option"

definition Cache :: "pyval \<Rightarrow> string option \<Rightarrow> cache" where
  "Cache d f = \<lparr>data = d, cache_file = f\<rparr>"

fun py_normalize :: "pyval \<Rightarrow> pyval"
  and py_normalize_list :: "pyval list \<Rightarrow> pyval list"
  and py_normalize_items :: "(string \<times> pyval) list \<Rightarrow> (string \<times> pyval) list"
where
  "py_normalize (VList xs) = VList (py_normalize_list xs)"
| "py_normalize (VTuple xs) = VList (py_normalize_list xs)"
| "py_normalize (VEntity c xs) = VList (py_normalize_list xs)"
| "py_normalize (VDict kvs) = VDict (py_normalize_items kvs)"
| "py_normalize VNone = VNone"
| "py_normalize (VInt i) = VInt i"
| "py_normalize (VStr s) = VStr s"
| "py_normalize_list [] = []"
| "py_normalize_list (x # xs) = py_normalize x # py_normalize_list xs"
| "py_normalize_items [] = []"
| "py_normalize_items ((k, v) # kvs) = (k, py_normalize v) # py_normalize_items kvs"

text \<open>
  \<^verbatim>\<open>validate_detailed\<close> and \<^verbatim>\<open>validate_contents\<close> print a message on a mismatch; the
  printed text is not modelled.
\<close>

definition validate_detailed :: "pyval \<Rightarrow> pyval \<Rightarrow> bool" where
  "validate_detailed d ref = (if \<not> py_eq d ref then False else True)"

definition validate_contents :: "pyval \<Rightarrow> pyval \<Rightarrow> bool" where
  "validate_contents d ref = (if \<not> py_eq d ref then False else True)"

definition cache_validate :: "cache \<Rightarrow> pyval \<Rightarrow> pyval \<Rightarrow> error + bool" where
  "cache_validate self chunks config =
     (if data self = VNone then Inr False
      else case py_getitem (data self) ''config'' of
             Inl e \<Rightarrow> Inl e
           | Inr stored_config \<Rightarrow>
               if \<not> validate_detailed stored_config config then Inr False
               else (case py_get (data self) ''chunks'' VNone of
                       Inl e \<Rightarrow> Inl e
                     | Inr stored_chunks \<Rightarrow> Inr (validate_contents stored_chunks chunks)))"

definition cache_get :: "fields \<Rightarrow> cache \<Rightarrow> pyval \<Rightarrow> pyval \<Rightarrow> error + pyval" where
  "cache_get F self chunks metadata =
     (case cache_validate self (py_normalize chunks) (py_normalize metadata) of
        Inl e \<Rightarrow> Inl e
      | Inr ok \<Rightarrow>
          if \<not> ok then Inr VNone
          else (case py_get (data self) ''annotated'' VNone of
                  Inl e \<Rightarrow> Inl e
                | Inr js \<Rightarrow> plain_decode F js))"

text \<open>
  Modelled from the spec: \<^verbatim>\<open>core.GeneratorInfo\<close>, a class of \<^verbatim>\<open>core.py\<close>, is the
  named tuple of the pair (name, version); calling it needs exactly two arguments. It
  is not one of the serialized annotation classes, so it is represented as a plain tuple.
\<close>

definition GeneratorInfo :: "pyval list \<Rightarrow> error + pyval" where
  "GeneratorInfo args = (if length args = 2 then Inr (VTuple args) else Inl TypeError)"

definition cache_generator :: "cache \<Rightarrow> error + pyval" where
  "cache_generator self =
     (case py_get (data self) ''generator'' (VTuple [VStr ''Coq+SerAPI'', VStr ''??'']) of
        Inl e \<Rightarrow> Inl e
      | Inr g \<Rightarrow> (case py_iter g of Inl e \<Rightarrow> Inl e | Inr args \<Rightarrow> GeneratorInfo args))"

definition cache_put ::
  "fields \<Rightarrow> cache \<Rightarrow> pyval \<Rightarrow> pyval \<Rightarrow> pyval \<Rightarrow> pyval \<Rightarrow> error + cache" where
  "cache_put F self chunks config annotated generator =
     (case py_iter chunks of
        Inl e \<Rightarrow> Inl e
      | Inr cs \<Rightarrow>
          (case plain_encode F annotated of
             Inl e \<Rightarrow> Inl e
           | Inr js \<Rightarrow>
               Inr (self\<lparr>data :=
                      VDict [(''generator'', py_normalize generator),
                             (''config'', py_normalize config),
                             (''chunks'', VList cs),
                             (''annotated'', js)]\<rparr>)))"

text \<open>
  The prover collaborator: \<^verbatim>\<open>annotate(chunks, **config)\<close>, which may raise, and
  \<^verbatim>\<open>version_info()\<close>. \<^verbatim>\<open>Cache.update\<close> returns its result or the exception raised, the
  cache entry as it is afterwards, and the list of the \<^verbatim>\<open>annotate\<close> calls it made.
\<close>

record prover =
  annotate :: "pyval \<Rightarrow> (string \<times> pyval) list \<Rightarrow> error + pyval"
  version_info :: pyval

definition cache_update ::
  "fields \<Rightarrow> cache \<Rightarrow> pyval \<Rightarrow> prover \<Rightarrow> pyval
     \<Rightarrow> (error + pyval) \<times> cache \<times> (pyval \<times> (string \<times> pyval) list) list" where
  "cache_update F self chunks p config =
     (case cache_get F self chunks config of
        Inl e \<Rightarrow> (Inl e, self, [])
      | Inr annotated \<Rightarrow>
          if annotated = VNone then
            (case config of
               VDict kw \<Rightarrow>
                 (case annotate p chunks kw of
                    Inl e \<Rightarrow> (Inl e, self, [(chunks, kw)])
                  | Inr annotated' \<Rightarrow>
                      (case cache_put F self chunks config annotated' (version_info p) of
                         Inl e \<Rightarrow> (Inl e, self, [(chunks, kw)])
                       | Inr self' \<Rightarrow> (Inr annotated', self', [(chunks, kw)])))
             | _ \<Rightarrow> (Inl TypeError, self, []))
          else (Inr annotated, self, []))"

text \<open>\<^verbatim>\<open>self.data.get(k)\<close> on a populated entry.\<close>

definition stored :: "cache \<Rightarrow> string \<Rightarrow> pyval" where
  "stored self k = (case py_get (data self) k VNone of Inl e \<Rightarrow> VNone | Inr v \<Rightarrow> v)"

text \<open>The chunks, configuration and prover of the end-to-end example.\<close>

definition sample_chunks :: "string list" where
  "sample_chunks = [''Lemma foo: True.'', ''Proof. trivial. Qed.'']"

definition sample_config :: pyval where
  "sample_config = VDict [(''args'', VList [])]"

definition sample_annotated :: pyval where
  "sample_annotated = VList [VList [VEntity Text [VStr ''Lemma foo: True.'']]]"

definition sample_entry :: cache where
  "sample_entry =
     Cache (VDict [(''generator'', VList [VStr ''Coq'', VStr ''8.13'']),
                   (''config'', VDict [(''args'', VList [])]),
                   (''chunks'', VList (map VStr sample_chunks)),
                   (''annotated'',
                      VList [VList [VDict [(''_type'', VStr ''text''),
                                           (''contents'', VStr ''Lemma foo: True.'')]]])])
       (Some ''doc.v.cache'')"

definition sample_prover :: prover where
  "sample_prover =
     \<lparr>annotate = (\<lambda>chunks kw. Inr sample_annotated),
      version_info = VTuple [VStr ''Coq'', VStr ''8.13'']\<rparr>"

section \<open>Round trip of the plain serializer\<close>

lemma fields_okD: "fields_ok F \<Longrightarrow> distinct (F c) \<and> ''_type'' \<notin> set (F c)"
  by (cases c) (simp_all add: fields_ok_def TYPES_def TYPE_OF_ALIASES_def)

lemma update_fresh_keys: "k \<notin> fst ` set d \<Longrightarrow> AList.update k v d = d @ [(k, v)]"
  by (induction d) auto

lemma fold_update_fresh:
  "distinct (map fst kvs) \<Longrightarrow> fst ` set kvs \<inter> fst ` set d = {} \<Longrightarrow>
   fold (\<lambda>(k, w) d. AList.update k w d) kvs d = d @ kvs"
proof (induction kvs arbitrary: d)
  case Nil
  then show ?case by simp
next
  case (Cons p kvs)
  obtain k v where p: "p = (k, v)" by (cases p)
  have fresh: "k \<notin> fst ` set d" using Cons.prems(2) p by auto
  have "fst ` set kvs \<inter> fst ` set (d @ [(k, v)]) = {}"
    using Cons.prems p by auto
  with Cons.IH [of "d @ [(k, v)]"] Cons.prems(1) p fresh show ?case
    by (simp add: update_fresh_keys)
qed

lemma plain_decode_items_zip:
  "plain_decode_list F ws = Inr vs \<Longrightarrow> length fs = length ws \<Longrightarrow>
   plain_decode_items F (zip fs ws) = Inr (zip fs vs)"
proof (induction ws arbitrary: fs vs)
  case Nil
  then show ?case by simp
next
  case (Cons w ws)
  then obtain f fs' where fs: "fs = f # fs'" by (cases fs) auto
  from Cons.prems(1) obtain v vs' where
    v: "plain_decode F w = Inr v" and vs': "plain_decode_list F ws = Inr vs'" and
    vs: "vs = v # vs'"
    by (auto split: sum.splits)
  with Cons.IH [OF vs', of fs'] Cons.prems(2) fs show ?case by simp
qed

lemma plain_decode_list_length:
  "plain_decode_list F ws = Inr vs \<Longrightarrow> length vs = length ws"
  by (induction ws arbitrary: vs) (auto split: sum.splits)

lemma map_upd_fresh:
  "f \<notin> set fs \<Longrightarrow> map (\<lambda>a. if a = f then x else m a) fs = map m fs"
  by (induction fs) auto

lemma those_map_of_zip:
  "distinct fs \<Longrightarrow> length fs = length vs \<Longrightarrow> those (map (map_of (zip fs vs)) fs) = Some vs"
proof (induction fs arbitrary: vs)
  case Nil
  then show ?case by simp
next
  case (Cons f fs)
  then obtain v vs' where vs: "vs = v # vs'" by (cases vs) auto
  with Cons show ?case by (simp add: map_upd_fresh)
qed

lemma alias_roundtrip: "type_of_alias (VStr (alias_of c)) = Inr c"
  by (cases c) (simp_all add: TYPE_OF_ALIASES_def)

lemma alias_nonempty: "alias_of c \<noteq> []"
  by (cases c) simp_all

lemma delete_fresh: "k \<notin> fst ` set d \<Longrightarrow> AList.delete k d = d"
  by (induction d) (auto simp: AList.delete_eq)

lemma new_kw_zip:
  "distinct (F c) \<Longrightarrow> length vs = length (F c) \<Longrightarrow> new_kw F c (zip (F c) vs) = Inr (VEntity c vs)"
  by (simp add: new_kw_def those_map_of_zip list_all_iff)

lemma plain_roundtrip_aux:
  shows "fields_ok F \<Longrightarrow> py_value F v \<Longrightarrow> avoids [''_type''] v \<Longrightarrow>
           \<exists>w. plain_encode F v = Inr w \<and> plain_decode F w = Inr v"
    and "fields_ok F \<Longrightarrow> py_value_list F xs \<Longrightarrow> avoids_list [''_type''] xs \<Longrightarrow>
           \<exists>ws. plain_encode_list F xs = Inr ws \<and> plain_decode_list F ws = Inr xs"
    and "fields_ok F \<Longrightarrow> py_value_items F kvs \<Longrightarrow> avoids_items [''_type''] kvs \<Longrightarrow>
           \<exists>js. plain_encode_items F kvs = Inr js \<and> plain_decode_items F js = Inr kvs
              \<and> map fst js = map fst kvs"
proof (induction F v and F xs and F kvs rule: plain_encode_plain_encode_list_plain_encode_items.induct)
  case (1 F xs)
  then show ?case by auto
next
  case (2 F kvs)
  then obtain js where js: "plain_encode_items F kvs = Inr js"
    "plain_decode_items F js = Inr kvs" "map fst js = map fst kvs" by auto
  have none: "map_of kvs ''_type'' = None" using 2 by (auto simp: map_of_eq_None_iff)
  have "''_type'' \<notin> set (map fst kvs)" using 2 by auto
  with js none show ?case by simp
next
  case (3 F c vs)
  then obtain ws where ws: "plain_encode_list F vs = Inr ws"
    "plain_decode_list F ws = Inr vs" by auto
  have fc: "distinct (F c)" "''_type'' \<notin> set (F c)" using fields_okD [of F c] 3 by auto
  have len: "length ws = length vs" using plain_decode_list_length [OF ws(2)] by simp
  have len': "length vs = length (F c)" using 3 by simp
  let ?d = "(''_type'', VStr (alias_of c)) # zip (F c) ws"
  have enc: "fold (\<lambda>(k, w) d. AList.update k w d) (zip (F c) ws) [(''_type'', VStr (alias_of c))] = ?d"
  proof -
    have "fst ` set (zip (F c) ws) = set (F c)"
      using len len' by (metis map_fst_zip set_map)
    then show ?thesis
      using fold_update_fresh [of "zip (F c) ws" "[(''_type'', VStr (alias_of c))]"] fc len len'
      by simp
  qed
  have dec: "plain_decode_items F ?d = Inr ((''_type'', VStr (alias_of c)) # zip (F c) vs)"
    using plain_decode_items_zip [OF ws(2), of "F c"] len len' by simp
  have del: "AList.delete ''_type'' ((''_type'', VStr (alias_of c)) # zip (F c) vs) = zip (F c) vs"
    using fc by (auto simp: AList.delete_eq filter_id_conv dest: set_zip_leftD)
  have "plain_decode F (VDict ?d) = Inr (VEntity c vs)"
    using dec del new_kw_zip [of F c vs] fc(1) len'
    by (simp add: alias_roundtrip alias_nonempty del: type_of_alias.simps)
  then show ?case using ws enc by simp
qed (auto)

section \<open>Round trip of the deduplicating serializers\<close>

lemma py_value_items_iff: "py_value_items F kvs \<longleftrightarrow> (\<forall>p \<in> set kvs. py_value F (snd p))"
  by (induction kvs) auto

lemma avoids_items_iff: "avoids_items R kvs \<longleftrightarrow> (\<forall>p \<in> set kvs. avoids R (snd p))"
  by (induction kvs) auto

lemma set_sorted_items [simp]: "set (sorted_items kvs) = set kvs"
  by (simp add: sorted_items_def)

lemma py_value_items_sorted: "py_value_items F (sorted_items kvs) = py_value_items F kvs"
  by (simp add: py_value_items_iff)

lemma avoids_items_sorted: "avoids_items R (sorted_items kvs) = avoids_items R kvs"
  by (simp add: avoids_items_iff)

lemma sorted_items_idem:
  "map fst js = map fst (sorted_items kvs) \<Longrightarrow> sorted_items js = js"
  unfolding sorted_items_def
  by (metis sort_key_id_if_sorted sorted_sort_key)

lemma update_fresh: "map_of T k = None \<Longrightarrow> AList.update k v T = T @ [(k, v)]"
  by (induction T) (auto split: if_splits)

lemma new_keys_below_refl: "new_keys_below T T n"
  by (simp add: new_keys_below_def)

lemma new_keys_below_trans:
  "new_keys_below T T' n \<Longrightarrow> new_keys_below T' T'' m \<Longrightarrow> n \<le> l \<Longrightarrow> m \<le> l \<Longrightarrow>
   new_keys_below T T'' l"
  unfolding new_keys_below_def by (meson less_le_trans)

lemma tables_agree_append:
  assumes "tables_agree T D" "map_of T k = None"
  shows "tables_agree (AList.update k (length T) T) (D @ [sort_dicts k])"
  using assms unfolding tables_agree_def
  by (auto simp: update_fresh nth_append split: if_splits)

lemma new_keys_below_update:
  "new_keys_below T T' n \<Longrightarrow> size k < m \<Longrightarrow> n \<le> m \<Longrightarrow>
   new_keys_below T (AList.update k i T') m"
  unfolding new_keys_below_def by (auto simp: update_conv' split: if_splits)

lemma pointer_decodes:
  assumes "tables_agree T D" "map_of T k = Some n"
  shows "dedup_dec copy F D (pointer n) = Inr (sort_dicts k, D)"
  using assms unfolding tables_agree_def pointer_def
  by (auto simp: deepcopy_def Let_def)

lemma length_sort_dicts_list [simp]: "length (sort_dicts_list xs) = length xs"
  by (induction xs) auto

lemma reference_decodes:
  assumes "dedup_dec_list copy F D ws = Inr (args, D')" "length args = length (F c)"
  shows "dedup_dec copy F D (reference (alias_of c) ws) = Inr (VEntity c args, D' @ [VEntity c args])"
proof -
  have "type_of_alias (VStr (alias_of c)) = Inr c"
    by (cases c) (simp_all add: TYPE_OF_ALIASES_def)
  then show ?thesis using assms
    by (simp add: reference_def dedup_new_def new_pos_def del: type_of_alias.simps)
qed

lemma dict_decodes:
  assumes "dedup_dec_items copy F D js = Inr (kvs, D')"
    and "sorted_items js = js" and "''*'' \<notin> fst ` set js" and "''&'' \<notin> fst ` set js"
  shows "dedup_dec copy F D (VDict js) = Inr (VDict kvs, D')"
proof -
  have "map_of js ''*'' = None" "map_of js ''&'' = None"
    using assms(3,4) by (simp_all add: map_of_eq_None_iff)
  then show ?thesis using assms(1,2) by simp
qed

lemma dedup_roundtrip_aux:
  shows "py_value F v \<Longrightarrow> avoids [''*'', ''&''] v \<Longrightarrow> tables_agree T D \<Longrightarrow>
           \<exists>w T' D'. dedup_enc T v = Inr (w, T') \<and>
              dedup_dec copy F D w = Inr (sort_dicts v, D') \<and>
              tables_agree T' D' \<and> new_keys_below T T' (Suc (size v))"
    and "py_value_list F xs \<Longrightarrow> avoids_list [''*'', ''&''] xs \<Longrightarrow> tables_agree T D \<Longrightarrow>
           \<exists>ws T' D'. dedup_enc_list T xs = Inr (ws, T') \<and>
              dedup_dec_list copy F D ws = Inr (sort_dicts_list xs, D') \<and>
              tables_agree T' D' \<and> new_keys_below T T' (size_list size xs)"
    and "py_value_items F kvs \<Longrightarrow> avoids_items [''*'', ''&''] kvs \<Longrightarrow> tables_agree T D \<Longrightarrow>
           \<exists>js T' D'. dedup_enc_items T kvs = Inr (js, T') \<and>
              dedup_dec_items copy F D js = Inr (sort_dicts_items kvs, D') \<and>
              map fst js = map fst kvs \<and>
              tables_agree T' D' \<and>
              new_keys_below T T' (size_list (size_prod (\<lambda>x. 0) size) kvs)"
proof (induction T v and T xs and T kvs arbitrary: D and D and D
    rule: dedup_enc_dedup_enc_list_dedup_enc_items.induct)
  case (1 T xs)
  then obtain ws T' D' where r: "dedup_enc_list T xs = Inr (ws, T')"
    "dedup_dec_list copy F D ws = Inr (sort_dicts_list xs, D')"
    "tables_agree T' D'" "new_keys_below T T' (size_list size xs)"
    by fastforce
  have "new_keys_below T T' (Suc (size (VList xs)))"
    using r(4) by (auto simp: new_keys_below_def)
  with r show ?case by simp
next
  case (2 T kvs)
  have clean: "''*'' \<notin> set (map fst kvs)" "''&'' \<notin> set (map fst kvs)"
    using "2.prems"(2) by auto
  have "py_value_items F (sorted_items kvs)" "avoids_items [''*'', ''&''] (sorted_items kvs)"
    using "2.prems" by (simp_all add: py_value_items_sorted avoids_items_sorted)
  with "2.IH" [of D] clean "2.prems"(3)
  obtain js T' D' where r: "dedup_enc_items T (sorted_items kvs) = Inr (js, T')"
    "dedup_dec_items copy F D js = Inr (sort_dicts_items (sorted_items kvs), D')"
    "map fst js = map fst (sorted_items kvs)"
    "tables_agree T' D'"
    "new_keys_below T T' (size_list (size_prod (\<lambda>x. 0) size) (sorted_items kvs))"
    by fastforce
  have keys: "fst ` set js = fst ` set kvs"
    using r(3) by (metis set_map set_sorted_items)
  have dec: "dedup_dec copy F D (VDict js) = Inr (sort_dicts (VDict kvs), D')"
    using dict_decodes [OF r(2) sorted_items_idem [OF r(3)]] keys clean by simp
  have "new_keys_below T T' (Suc (size (VDict kvs)))"
    using r(5) by (auto simp: new_keys_below_def size_list_sorted_items)
  with r dec clean show ?case by simp
next
  case (3 T c vs)
  let ?key = "VEntity c vs"
  show ?case
  proof (cases "map_of T ?key")
    case (Some n)
    then show ?thesis
      using pointer_decodes [OF "3.prems"(3) Some] "3.prems"(3)
      by (simp add: pickle_dumps_def new_keys_below_refl)
  next
    case None
    with "3.IH" [of D] "3.prems"
    obtain ws T' D' where r: "dedup_enc_list T vs = Inr (ws, T')"
      "dedup_dec_list copy F D ws = Inr (sort_dicts_list vs, D')"
      "tables_agree T' D'" "new_keys_below T T' (size_list size vs)"
      by (fastforce simp: pickle_dumps_def)
    have fresh: "map_of T' ?key = None"
      using r(4) None unfolding new_keys_below_def by fastforce
    have len: "length (sort_dicts_list vs) = length (F c)"
      using "3.prems"(1) by simp
    have lenT: "length T' = length D'" using r(3) by (simp add: tables_agree_def)
    have dec: "dedup_dec copy F D (reference (alias_of c) ws) =
        Inr (sort_dicts ?key, D' @ [sort_dicts ?key])"
      using reference_decodes [OF r(2) len] by simp
    have agree: "tables_agree (AList.update ?key (length T') T') (D' @ [sort_dicts ?key])"
      using tables_agree_append [OF r(3) fresh] .
    have below: "new_keys_below T (AList.update ?key (length T') T') (Suc (size ?key))"
      using new_keys_below_update [OF r(4), of ?key "Suc (size ?key)"] by simp
    show ?thesis using None r(1) dec agree below
      by (simp add: pickle_dumps_def)
  qed
next
  case (9 T x xs)
  from "9.IH"(1) [of D] "9.prems"
  obtain y T1 D1 where r1: "dedup_enc T x = Inr (y, T1)"
    "dedup_dec copy F D y = Inr (sort_dicts x, D1)"
    "tables_agree T1 D1" "new_keys_below T T1 (Suc (size x))"
    by fastforce
  from "9.IH"(2) [OF r1(1) refl, of D1] "9.prems" r1(3)
  obtain ys T2 D2 where r2: "dedup_enc_list T1 xs = Inr (ys, T2)"
    "dedup_dec_list copy F D1 ys = Inr (sort_dicts_list xs, D2)"
    "tables_agree T2 D2" "new_keys_below T1 T2 (size_list size xs)"
    by fastforce
  have "new_keys_below T T2 (size_list size (x # xs))"
    using new_keys_below_trans [OF r1(4) r2(4)] by simp
  with r1 r2 show ?case by simp
next
  case (11 T k v kvs)
  from "11.IH"(1) [of D] "11.prems"
  obtain w T1 D1 where r1: "dedup_enc T v = Inr (w, T1)"
    "dedup_dec copy F D w = Inr (sort_dicts v, D1)"
    "tables_agree T1 D1" "new_keys_below T T1 (Suc (size v))"
    by fastforce
  from "11.IH"(2) [OF r1(1) refl, of D1] "11.prems" r1(3)
  obtain js T2 D2 where r2: "dedup_enc_items T1 kvs = Inr (js, T2)"
    "dedup_dec_items copy F D1 js = Inr (sort_dicts_items kvs, D2)"
    "map fst js = map fst kvs"
    "tables_agree T2 D2"
    "new_keys_below T1 T2 (size_list (size_prod (\<lambda>x. 0) size) kvs)"
    by fastforce
  have "new_keys_below T T2 (size_list (size_prod (\<lambda>x. 0) size) ((k, v) # kvs))"
    using new_keys_below_trans [OF r1(4) r2(5)] by simp
  with r1 r2 show ?case by simp
qed (simp_all add: new_keys_below_refl)

lemma fully_pointer_decodes:
  assumes "tables_agree T D" "map_of T k = Some n"
  shows "fully_dec copy F D (pointer n) = Inr (sort_dicts k, D)"
  using assms unfolding tables_agree_def pointer_def
  by (auto simp: deepcopy_def Let_def)

lemma fully_dec_not_pointer:
  assumes "\<not> is_pointer w" "fully_dec_inner copy F D w = Inr (v, D')"
  shows "fully_dec copy F D w = Inr (v, D' @ [v])"
  using assms by (simp add: is_pointer_def fully_append_def)

lemma fully_reference_decodes:
  assumes "fully_dec_list copy F D ws = Inr (args, D')" "length args = length (F c)"
  shows "fully_dec_inner copy F D (reference (alias_of c) ws) = Inr (VEntity c args, D')"
proof -
  have "type_of_alias (VStr (alias_of c)) = Inr c"
    by (cases c) (simp_all add: TYPE_OF_ALIASES_def)
  then show ?thesis using assms
    by (simp add: reference_def fully_new_def new_pos_def del: type_of_alias.simps)
qed

lemma fully_dict_decodes:
  assumes "fully_dec_items copy F D js = Inr (kvs, D')"
    and "sorted_items js = js" and "''&'' \<notin> fst ` set js"
  shows "fully_dec_inner copy F D (VDict js) = Inr (VDict kvs, D')"
proof -
  have "map_of js ''&'' = None"
    using assms(3) by (simp_all add: map_of_eq_None_iff)
  then show ?thesis using assms(1,2) by simp
qed

lemma fully_roundtrip_aux:
  shows "py_value F v \<Longrightarrow> avoids [''*'', ''&''] v \<Longrightarrow> tables_agree T D \<Longrightarrow>
           \<exists>w T' D'. fully_enc T v = Inr (w, T') \<and>
              fully_dec copy F D w = Inr (sort_dicts v, D') \<and>
              tables_agree T' D' \<and> new_keys_below T T' (Suc (size v))"
    and "py_value F v \<Longrightarrow> avoids [''*'', ''&''] v \<Longrightarrow> tables_agree T D \<Longrightarrow>
           \<exists>w T' D'. fully_enc_inner T v = Inr (w, T') \<and> \<not> is_pointer w \<and>
              fully_dec_inner copy F D w = Inr (sort_dicts v, D') \<and>
              tables_agree T' D' \<and> new_keys_below T T' (size v)"
    and "py_value_list F xs \<Longrightarrow> avoids_list [''*'', ''&''] xs \<Longrightarrow> tables_agree T D \<Longrightarrow>
           \<exists>ws T' D'. fully_enc_list T xs = Inr (ws, T') \<and>
              fully_dec_list copy F D ws = Inr (sort_dicts_list xs, D') \<and>
              tables_agree T' D' \<and> new_keys_below T T' (size_list size xs)"
    and "py_value_items F kvs \<Longrightarrow> avoids_items [''*'', ''&''] kvs \<Longrightarrow> tables_agree T D \<Longrightarrow>
           \<exists>js T' D'. fully_enc_items T kvs = Inr (js, T') \<and>
              fully_dec_items copy F D js = Inr (sort_dicts_items kvs, D') \<and>
              map fst js = map fst kvs \<and>
              tables_agree T' D' \<and>
              new_keys_below T T' (size_list (size_prod (\<lambda>x. 0) size) kvs)"
proof (induction T v and T v and T xs and T kvs arbitrary: D and D and D and D
    rule: fully_enc_fully_enc_inner_fully_enc_list_fully_enc_items.induct)
  case (1 T obj)
  show ?case
  proof (cases "map_of T obj")
    case (Some n)
    then show ?thesis
      using fully_pointer_decodes [OF "1.prems"(3) Some] "1.prems"(3)
      by (simp add: pickle_dumps_def new_keys_below_refl del: fully_dec.simps)
  next
    case None
    with "1.IH" [of D] "1.prems"
    obtain w T' D' where r: "fully_enc_inner T obj = Inr (w, T')" "\<not> is_pointer w"
      "fully_dec_inner copy F D w = Inr (sort_dicts obj, D')"
      "tables_agree T' D'" "new_keys_below T T' (size obj)"
      by (fastforce simp: pickle_dumps_def)
    have fresh: "map_of T' obj = None"
      using r(5) None unfolding new_keys_below_def by fastforce
    have dec: "fully_dec copy F D w = Inr (sort_dicts obj, D' @ [sort_dicts obj])"
      using fully_dec_not_pointer [OF r(2,3)] .
    have agree: "tables_agree (AList.update obj (length T') T') (D' @ [sort_dicts obj])"
      using tables_agree_append [OF r(4) fresh] .
    have below: "new_keys_below T (AList.update obj (length T') T') (Suc (size obj))"
      using new_keys_below_update [OF r(5), of obj "Suc (size obj)"] by simp
    show ?thesis using None r(1) dec agree below
      by (simp add: pickle_dumps_def del: fully_dec.simps)
  qed
next
  case (2 T xs)
  then obtain ws T' D' where r: "fully_enc_list T xs = Inr (ws, T')"
    "fully_dec_list copy F D ws = Inr (sort_dicts_list xs, D')"
    "tables_agree T' D'" "new_keys_below T T' (size_list size xs)"
    by fastforce
  have "new_keys_below T T' (size (VList xs))"
    using r(4) by (auto simp: new_keys_below_def)
  with r show ?case by (simp add: is_pointer_def)
next
  case (3 T kvs)
  have clean: "''*'' \<notin> set (map fst kvs)" "''&'' \<notin> set (map fst kvs)"
    using "3.prems"(2) by auto
  have "py_value_items F (sorted_items kvs)" "avoids_items [''*'', ''&''] (sorted_items kvs)"
    using "3.prems" by (simp_all add: py_value_items_sorted avoids_items_sorted)
  with "3.IH" [of D] clean "3.prems"(3)
  obtain js T' D' where r: "fully_enc_items T (sorted_items kvs) = Inr (js, T')"
    "fully_dec_items copy F D js = Inr (sort_dicts_items (sorted_items kvs), D')"
    "map fst js = map fst (sorted_items kvs)"
    "tables_agree T' D'"
    "new_keys_below T T' (size_list (size_prod (\<lambda>x. 0) size) (sorted_items kvs))"
    by fastforce
  have keys: "fst ` set js = fst ` set kvs"
    using r(3) by (metis set_map set_sorted_items)
  have dec: "fully_dec_inner copy F D (VDict js) = Inr (sort_dicts (VDict kvs), D')"
    using fully_dict_decodes [OF r(2) sorted_items_idem [OF r(3)]] keys clean by simp
  have np: "\<not> is_pointer (VDict js)"
    using keys clean by (simp add: is_pointer_def map_of_eq_None_iff)
  have "new_keys_below T T' (size (VDict kvs))"
    using r(5) by (auto simp: new_keys_below_def size_list_sorted_items)
  with r(1,4) dec np clean show ?case by simp
next
  case (4 T c vs)
  with "4.IH" [of D]
  obtain ws T' D' where r: "fully_enc_list T vs = Inr (ws, T')"
    "fully_dec_list copy F D ws = Inr (sort_dicts_list vs, D')"
    "tables_agree T' D'" "new_keys_below T T' (size_list size vs)"
    by fastforce
  have len: "length (sort_dicts_list vs) = length (F c)"
    using "4.prems"(1) by simp
  have dec: "fully_dec_inner copy F D (reference (alias_of c) ws) =
      Inr (sort_dicts (VEntity c vs), D')"
    using fully_reference_decodes [OF r(2) len] by simp
  have np: "\<not> is_pointer (reference (alias_of c) ws)"
    by (simp add: is_pointer_def reference_def)
  have "new_keys_below T T' (size (VEntity c vs))"
    using r(4) by (auto simp: new_keys_below_def)
  with r(1,3) dec np show ?case by simp
next
  case (10 T x xs)
  from "10.IH"(1) [of D] "10.prems"
  obtain y T1 D1 where r1: "fully_enc T x = Inr (y, T1)"
    "fully_dec copy F D y = Inr (sort_dicts x, D1)"
    "tables_agree T1 D1" "new_keys_below T T1 (Suc (size x))"
    by fastforce
  from "10.IH"(2) [OF r1(1) refl, of D1] "10.prems" r1(3)
  obtain ys T2 D2 where r2: "fully_enc_list T1 xs = Inr (ys, T2)"
    "fully_dec_list copy F D1 ys = Inr (sort_dicts_list xs, D2)"
    "tables_agree T2 D2" "new_keys_below T1 T2 (size_list size xs)"
    by fastforce
  have "new_keys_below T T2 (size_list size (x # xs))"
    using new_keys_below_trans [OF r1(4) r2(4)] by simp
  with r1 r2 show ?case by (simp del: fully_enc.simps fully_dec.simps)
next
  case (12 T k v kvs)
  from "12.IH"(1) [of D] "12.prems"
  obtain w T1 D1 where r1: "fully_enc T v = Inr (w, T1)"
    "fully_dec copy F D w = Inr (sort_dicts v, D1)"
    "tables_agree T1 D1" "new_keys_below T T1 (Suc (size v))"
    by fastforce
  from "12.IH"(2) [OF r1(1) refl, of D1] "12.prems" r1(3)
  obtain js T2 D2 where r2: "fully_enc_items T1 kvs = Inr (js, T2)"
    "fully_dec_items copy F D1 js = Inr (sort_dicts_items kvs, D2)"
    "map fst js = map fst kvs"
    "tables_agree T2 D2"
    "new_keys_below T1 T2 (size_list (size_prod (\<lambda>x. 0) size) kvs)"
    by fastforce
  have "new_keys_below T T2 (size_list (size_prod (\<lambda>x. 0) size) ((k, v) # kvs))"
    using new_keys_below_trans [OF r1(4) r2(5)] by simp
  with r1 r2 show ?case by (simp del: fully_enc.simps fully_dec.simps)
qed (simp_all add: new_keys_below_refl is_pointer_def)

section \<open>The round-trip theorem\<close>

lemma map_fst_sort_dicts_items [simp]: "map fst (sort_dicts_items kvs) = map fst kvs"
  by (induction kvs) auto

lemma sort_dicts_idem:
  shows "sort_dicts (sort_dicts v) = sort_dicts v"
    and "sort_dicts_list (sort_dicts_list xs) = sort_dicts_list xs"
    and "sort_dicts_items (sort_dicts_items kvs) = sort_dicts_items kvs"
proof (induction v and xs and kvs rule: sort_dicts_sort_dicts_list_sort_dicts_items.induct)
  case (3 kvs)
  have "sorted_items (sort_dicts_items (sorted_items kvs)) = sort_dicts_items (sorted_items kvs)"
    by (rule sorted_items_idem) simp
  with 3 show ?case by simp
qed simp_all

lemma tables_agree_empty: "tables_agree [] []"
  by (simp add: tables_agree_def)

lemma avoids_subset:
  shows "avoids R v \<Longrightarrow> set R' \<subseteq> set R \<Longrightarrow> avoids R' v"
    and "avoids_list R xs \<Longrightarrow> set R' \<subseteq> set R \<Longrightarrow> avoids_list R' xs"
    and "avoids_items R kvs \<Longrightarrow> set R' \<subseteq> set R \<Longrightarrow> avoids_items R' kvs"
  by (induction R v and R xs and R kvs rule: avoids_avoids_list_avoids_items.induct) auto

lemma dedup_roundtrip:
  assumes "py_value F v" "avoids [''*'', ''&''] v"
  shows "\<exists>w. dedup_encode v = Inr w \<and> dedup_decode F w copy = Inr (sort_dicts v)"
  using dedup_roundtrip_aux(1) [OF assms tables_agree_empty, of copy]
  by (auto simp: dedup_encode_def dedup_decode_def)

lemma fully_roundtrip:
  assumes "py_value F v" "avoids [''*'', ''&''] v"
  shows "\<exists>w. fully_encode v = Inr w \<and> fully_decode F w copy = Inr (sort_dicts v)"
  using fully_roundtrip_aux(1) [OF assms tables_agree_empty, of copy]
  by (auto simp: fully_encode_def fully_decode_def simp del: fully_enc.simps fully_dec.simps)

text \<open>
  Claim C1 (round trip). For every value built from \<^verbatim>\<open>None\<close>, integers, strings,
  lists, dictionaries with unique keys and annotation objects, arbitrarily nested, whose
  dictionaries avoid the reserved keys of the serializer, decoding the encoded value
  succeeds and gives back the value: for \<^verbatim>\<open>PlainSerializer\<close> the very same tree when
  no dictionary has the key \<^verbatim>\<open>"_type"\<close>; for \<^verbatim>\<open>DeduplicatingSerializer\<close> and
  \<^verbatim>\<open>FullyDeduplicatingSerializer\<close>, in both decode modes, a structurally equal tree
  (the same up to the order of dictionary keys) when no dictionary has the key
  \<^verbatim>\<open>"*"\<close> or \<^verbatim>\<open>"&"\<close>.
\<close>

theorem serializers_roundtrip:
  assumes "fields_ok F" and "py_value F v"
  shows "(avoids [''_type''] v \<longrightarrow>
            (\<exists>w. plain_encode F v = Inr w \<and> plain_decode F w = Inr v)) \<and>
         (avoids [''*'', ''&''] v \<longrightarrow>
            (\<forall>copy. (\<exists>w r. dedup_encode v = Inr w \<and> dedup_decode F w copy = Inr r \<and> struct_eq r v) \<and>
                    (\<exists>w r. fully_encode v = Inr w \<and> fully_decode F w copy = Inr r \<and> struct_eq r v)))"
proof (intro conjI impI allI)
  assume "avoids [''_type''] v"
  with plain_roundtrip_aux(1) [OF assms] 
  show "\<exists>w. plain_encode F v = Inr w \<and> plain_decode F w = Inr v" by simp
next
  fix copy
  assume a: "avoids [''*'', ''&''] v"
  have eq: "struct_eq (sort_dicts v) v"
    by (simp add: struct_eq_def sort_dicts_idem)
  from dedup_roundtrip [OF assms(2) a, of copy] eq
  show "\<exists>w r. dedup_encode v = Inr w \<and> dedup_decode F w copy = Inr r \<and> struct_eq r v"
    by blast
  from fully_roundtrip [OF assms(2) a, of copy] eq
  show "\<exists>w r. fully_encode v = Inr w \<and> fully_decode F w copy = Inr r \<and> struct_eq r v"
    by blast
qed

lemma sample_fields_ok: "fields_ok sample_fields"
  by (simp add: fields_ok_def TYPES_def TYPE_OF_ALIASES_def sample_fields_def)

lemma sample_value_ok:
  "py_value sample_fields sample_value"
  "avoids [''_type''] sample_value"
  "avoids [''*'', ''&''] sample_value"
  by (simp_all add: sample_value_def sample_fields_def)

text \<open>The round trip at a list with a repeated annotation and an unsorted dictionary.\<close>

theorem serializers_roundtrip_witness:
  "fields_ok sample_fields \<and> py_value sample_fields sample_value \<and>
   avoids [''_type''] sample_value \<and> avoids [''*'', ''&''] sample_value \<and>
   (\<exists>w. plain_encode sample_fields sample_value = Inr w \<and>
        plain_decode sample_fields w = Inr sample_value) \<and>
   (\<exists>w r. dedup_encode sample_value = Inr w \<and>
        dedup_decode sample_fields w False = Inr r \<and> struct_eq r sample_value) \<and>
   (\<exists>w r. dedup_encode sample_value = Inr w \<and>
        dedup_decode sample_fields w True = Inr r \<and> struct_eq r sample_value) \<and>
   (\<exists>w r. fully_encode sample_value = Inr w \<and>
        fully_decode sample_fields w False = Inr r \<and> struct_eq r sample_value) \<and>
   (\<exists>w r. fully_encode sample_value = Inr w \<and>
        fully_decode sample_fields w True = Inr r \<and> struct_eq r sample_value)"
  using serializers_roundtrip [OF sample_fields_ok sample_value_ok(1)] sample_fields_ok sample_value_ok
  by blast

text \<open>
  Without the restriction on keys the round trip fails: a dictionary with the key
  \<^verbatim>\<open>"_type"\<close> is a value of the domain, and \<^verbatim>\<open>PlainSerializer.encode\<close> raises on it.
\<close>

theorem roundtrip_reserved_key_counterexample:
  "py_value sample_fields (VDict [(''_type'', VInt 1)]) \<and>
   plain_encode sample_fields (VDict [(''_type'', VInt 1)]) = Inl AssertionError"
  by simp

section \<open>Reserved keys\<close>

lemma plain_encode_error:
  shows "plain_encode F v = Inl e \<Longrightarrow> e = AssertionError"
    and "plain_encode_list F xs = Inl e \<Longrightarrow> e = AssertionError"
    and "plain_encode_items F kvs = Inl e \<Longrightarrow> e = AssertionError"
  by (induction F v and F xs and F kvs rule: plain_encode_plain_encode_list_plain_encode_items.induct)
    (auto split: sum.splits if_splits)

lemma plain_encode_avoids:
  shows "plain_encode F v = Inr w \<Longrightarrow> avoids [''_type''] v"
    and "plain_encode_list F xs = Inr ws \<Longrightarrow> avoids_list [''_type''] xs"
    and "plain_encode_items F kvs = Inr js \<Longrightarrow> avoids_items [''_type''] kvs"
  by (induction F v and F xs and F kvs arbitrary: w and ws and js
      rule: plain_encode_plain_encode_list_plain_encode_items.induct)
    (auto split: sum.splits if_splits)

lemma dedup_enc_error:
  shows "dedup_enc T v = Inl e \<Longrightarrow> e = AssertionError"
    and "dedup_enc_list T xs = Inl e \<Longrightarrow> e = AssertionError"
    and "dedup_enc_items T kvs = Inl e \<Longrightarrow> e = AssertionError"
  by (induction T v and T xs and T kvs rule: dedup_enc_dedup_enc_list_dedup_enc_items.induct)
    (auto split: sum.splits if_splits option.splits prod.splits)

lemma keys_avoid_update:
  "keys_avoid R T \<Longrightarrow> avoids R k \<Longrightarrow> keys_avoid R (AList.update k i T)"
  by (auto simp: keys_avoid_def update_conv' split: if_splits)

lemma dedup_enc_avoids:
  shows "dedup_enc T v = Inr (w, T') \<Longrightarrow> keys_avoid [''*'', ''&''] T \<Longrightarrow>
           avoids [''*'', ''&''] v \<and> keys_avoid [''*'', ''&''] T'"
    and "dedup_enc_list T xs = Inr (ws, T') \<Longrightarrow> keys_avoid [''*'', ''&''] T \<Longrightarrow>
           avoids_list [''*'', ''&''] xs \<and> keys_avoid [''*'', ''&''] T'"
    and "dedup_enc_items T kvs = Inr (js, T') \<Longrightarrow> keys_avoid [''*'', ''&''] T \<Longrightarrow>
           avoids_items [''*'', ''&''] kvs \<and> keys_avoid [''*'', ''&''] T'"
proof (induction T v and T xs and T kvs arbitrary: w T' and ws T' and js T'
      rule: dedup_enc_dedup_enc_list_dedup_enc_items.induct)
  case (2 T kvs)
  then show ?case
    by (auto split: sum.splits if_splits prod.splits simp: avoids_items_sorted)
next
  case (3 T c vs)
  show ?case
  proof (cases "map_of T (VEntity c vs)")
    case None
    with 3 show ?thesis
      by (auto split: sum.splits prod.splits simp: pickle_dumps_def intro!: keys_avoid_update)
  next
    case (Some n)
    with "3.prems" show ?thesis
      by (auto simp: pickle_dumps_def keys_avoid_def)
  qed
next
  case (9 T x xs)
  then show ?case by (fastforce split: sum.splits prod.splits)
next
  case (11 T k v kvs)
  then show ?case by (fastforce split: sum.splits prod.splits)
qed (auto split: sum.splits prod.splits)

lemma fully_enc_error:
  shows "fully_enc T v = Inl e \<Longrightarrow> e = AssertionError"
    and "fully_enc_inner T v = Inl e \<Longrightarrow> e = AssertionError"
    and "fully_enc_list T xs = Inl e \<Longrightarrow> e = AssertionError"
    and "fully_enc_items T kvs = Inl e \<Longrightarrow> e = AssertionError"
proof (induction T v and T v and T xs and T kvs
    rule: fully_enc_fully_enc_inner_fully_enc_list_fully_enc_items.induct)
  case (1 T obj)
  then show ?case by (auto split: sum.splits option.splits prod.splits)
qed (auto split: sum.splits if_splits option.splits prod.splits simp del: fully_enc.simps)

lemma fully_enc_avoids:
  shows "fully_enc T v = Inr (w, T') \<Longrightarrow> keys_avoid [''*'', ''&''] T \<Longrightarrow>
           avoids [''*'', ''&''] v \<and> keys_avoid [''*'', ''&''] T'"
    and "fully_enc_inner T v = Inr (w, T') \<Longrightarrow> keys_avoid [''*'', ''&''] T \<Longrightarrow>
           avoids [''*'', ''&''] v \<and> keys_avoid [''*'', ''&''] T'"
    and "fully_enc_list T xs = Inr (ws, T') \<Longrightarrow> keys_avoid [''*'', ''&''] T \<Longrightarrow>
           avoids_list [''*'', ''&''] xs \<and> keys_avoid [''*'', ''&''] T'"
    and "fully_enc_items T kvs = Inr (js, T') \<Longrightarrow> keys_avoid [''*'', ''&''] T \<Longrightarrow>
           avoids_items [''*'', ''&''] kvs \<and> keys_avoid [''*'', ''&''] T'"
proof (induction T v and T v and T xs and T kvs arbitrary: w T' and w T' and ws T' and js T'
    rule: fully_enc_fully_enc_inner_fully_enc_list_fully_enc_items.induct)
  case (1 T obj)
  show ?case
  proof (cases "map_of T obj")
    case None
    with 1 show ?thesis
      by (auto split: sum.splits prod.splits simp: pickle_dumps_def intro!: keys_avoid_update)
  next
    case (Some n)
    with "1.prems" show ?thesis
      by (auto simp: pickle_dumps_def keys_avoid_def)
  qed
next
  case (3 T kvs)
  then show ?case
    by (auto split: sum.splits if_splits prod.splits simp: avoids_items_sorted)
next
  case (10 T x xs)
  then show ?case by (fastforce split: sum.splits prod.splits simp del: fully_enc.simps)
next
  case (12 T k v kvs)
  then show ?case by (fastforce split: sum.splits prod.splits simp del: fully_enc.simps)
qed (auto split: sum.splits prod.splits simp del: fully_enc.simps)

lemma keys_avoid_empty: "keys_avoid R []"
  by (simp add: keys_avoid_def)

lemma plain_encode_fails: "\<not> avoids [''_type''] v \<Longrightarrow> plain_encode F v = Inl AssertionError"
  using plain_encode_avoids(1) [of F v] plain_encode_error(1) [of F v]
  by (cases "plain_encode F v") auto

lemma dedup_encode_fails: "\<not> avoids [''*'', ''&''] v \<Longrightarrow> dedup_encode v = Inl AssertionError"
  using dedup_enc_avoids(1) [of "[]" v] dedup_enc_error(1) [of "[]" v] keys_avoid_empty
  by (cases "dedup_enc [] v") (auto simp: dedup_encode_def)

lemma fully_encode_fails: "\<not> avoids [''*'', ''&''] v \<Longrightarrow> fully_encode v = Inl AssertionError"
  using fully_enc_avoids(1) [of "[]" v] fully_enc_error(1) [of "[]" v] keys_avoid_empty
  by (cases "fully_enc [] v") (auto simp: fully_encode_def simp del: fully_enc.simps)

text \<open>
  Claim C10 (reserved keys). Whenever some dictionary occurring in the input holds the
  key \<^verbatim>\<open>"_type"\<close>, \<^verbatim>\<open>PlainSerializer.encode\<close> fails its assertion, and whenever
  one holds \<^verbatim>\<open>"*"\<close> or \<^verbatim>\<open>"&"\<close>, \<^verbatim>\<open>DeduplicatingSerializer.encode\<close> and
  \<^verbatim>\<open>FullyDeduplicatingSerializer.encode\<close> fail theirs. On a value of the domain none
  of whose dictionaries holds the respective keys, each encoder returns a result.
\<close>

theorem reserved_keys_guard:
  "(\<not> avoids [''_type''] v \<longrightarrow> plain_encode F v = Inl AssertionError) \<and>
   (\<not> avoids [''*'', ''&''] v \<longrightarrow>
      dedup_encode v = Inl AssertionError \<and> fully_encode v = Inl AssertionError) \<and>
   (fields_ok F \<and> py_value F v \<and> avoids [''_type''] v \<longrightarrow> (\<exists>w. plain_encode F v = Inr w)) \<and>
   (py_value F v \<and> avoids [''*'', ''&''] v \<longrightarrow>
      (\<exists>w. dedup_encode v = Inr w) \<and> (\<exists>w. fully_encode v = Inr w))"
proof (intro conjI impI)
  assume "\<not> avoids [''_type''] v"
  then show "plain_encode F v = Inl AssertionError" by (rule plain_encode_fails)
next
  assume a: "\<not> avoids [''*'', ''&''] v"
  then show "dedup_encode v = Inl AssertionError" by (rule dedup_encode_fails)
  from a show "fully_encode v = Inl AssertionError" by (rule fully_encode_fails)
next
  assume "fields_ok F \<and> py_value F v \<and> avoids [''_type''] v"
  then show "\<exists>w. plain_encode F v = Inr w"
    using plain_roundtrip_aux(1) [of F v] by blast
next
  assume a: "py_value F v \<and> avoids [''*'', ''&''] v"
  then show "\<exists>w. dedup_encode v = Inr w"
    using dedup_roundtrip [of F v] by blast
  from a show "\<exists>w. fully_encode v = Inr w"
    using fully_roundtrip [of F v] by blast
qed

text \<open>Both sides of the guard, at a value with reserved keys and at one without.\<close>

theorem reserved_keys_guard_witness:
  "\<not> avoids [''_type''] reserved_value \<and> \<not> avoids [''*'', ''&''] reserved_value \<and>
   plain_encode sample_fields reserved_value = Inl AssertionError \<and>
   dedup_encode reserved_value = Inl AssertionError \<and>
   fully_encode reserved_value = Inl AssertionError \<and>
   fields_ok sample_fields \<and> py_value sample_fields sample_value \<and>
   avoids [''_type''] sample_value \<and> avoids [''*'', ''&''] sample_value \<and>
   (\<exists>w. plain_encode sample_fields sample_value = Inr w) \<and>
   (\<exists>w. dedup_encode sample_value = Inr w) \<and>
   (\<exists>w. fully_encode sample_value = Inr w)"
proof -
  have bad: "\<not> avoids [''_type''] reserved_value" "\<not> avoids [''*'', ''&''] reserved_value"
    by (simp_all add: reserved_value_def)
  show ?thesis
    using reserved_keys_guard [of reserved_value sample_fields]
      reserved_keys_guard [of sample_value sample_fields]
      bad sample_fields_ok sample_value_ok
    by blast
qed

section \<open>Deduplicating and plain encoders on plain data\<close>

lemma plain_data_items_iff: "plain_data_items kvs \<longleftrightarrow> (\<forall>p \<in> set kvs. plain_data (snd p))"
  by (induction kvs) auto

lemma plain_encode_plain_data:
  shows "plain_data v \<Longrightarrow> avoids [''_type''] v \<Longrightarrow> plain_encode F v = Inr v"
    and "plain_data_list xs \<Longrightarrow> avoids_list [''_type''] xs \<Longrightarrow> plain_encode_list F xs = Inr xs"
    and "plain_data_items kvs \<Longrightarrow> avoids_items [''_type''] kvs \<Longrightarrow>
           plain_encode_items F kvs = Inr kvs"
  by (induction F v and F xs and F kvs rule: plain_encode_plain_encode_list_plain_encode_items.induct)
    auto

lemma dedup_enc_plain_data:
  shows "plain_data v \<Longrightarrow> avoids [''*'', ''&''] v \<Longrightarrow> dedup_enc T v = Inr (sort_dicts v, T)"
    and "plain_data_list xs \<Longrightarrow> avoids_list [''*'', ''&''] xs \<Longrightarrow>
           dedup_enc_list T xs = Inr (sort_dicts_list xs, T)"
    and "plain_data_items kvs \<Longrightarrow> avoids_items [''*'', ''&''] kvs \<Longrightarrow>
           dedup_enc_items T kvs = Inr (sort_dicts_items kvs, T)"
proof (induction T v and T xs and T kvs rule: dedup_enc_dedup_enc_list_dedup_enc_items.induct)
  case (2 T kvs)
  then show ?case by (auto simp: plain_data_items_iff avoids_items_iff)
qed auto

text \<open>
  Claim C7 (deduplicating encoder on values without annotation objects). For every
  value built only from primitives, lists and dictionaries, none of whose dictionaries
  holds one of the keys \<^verbatim>\<open>"_type"\<close>, \<^verbatim>\<open>"*"\<close>, \<^verbatim>\<open>"&"\<close>, the plain encoder returns
  the value itself and the deduplicating encoder returns it with the keys of every
  dictionary in sorted order: the two wire trees are structurally equal.
\<close>

theorem dedup_like_plain:
  assumes "plain_data v" and "avoids [''_type'', ''*'', ''&''] v"
  shows "plain_encode F v = Inr v \<and> dedup_encode v = Inr (sort_dicts v) \<and>
         struct_eq (sort_dicts v) v"
proof -
  have a: "avoids [''_type''] v" "avoids [''*'', ''&''] v"
    using avoids_subset(1) [OF assms(2)] by auto
  show ?thesis
    using plain_encode_plain_data(1) [OF assms(1) a(1)] dedup_enc_plain_data(1) [OF assms(1) a(2)]
    by (simp add: dedup_encode_def struct_eq_def sort_dicts_idem)
qed

text \<open>The two encoders at a list holding a dictionary with unsorted keys.\<close>

theorem dedup_like_plain_witness:
  "plain_data (VList [VDict [(''b'', VInt 1), (''a'', VStr ''x'')], VNone]) \<and>
   avoids [''_type'', ''*'', ''&''] (VList [VDict [(''b'', VInt 1), (''a'', VStr ''x'')], VNone]) \<and>
   plain_encode sample_fields (VList [VDict [(''b'', VInt 1), (''a'', VStr ''x'')], VNone]) =
     Inr (VList [VDict [(''b'', VInt 1), (''a'', VStr ''x'')], VNone]) \<and>
   dedup_encode (VList [VDict [(''b'', VInt 1), (''a'', VStr ''x'')], VNone]) =
     Inr (VList [VDict [(''a'', VStr ''x''), (''b'', VInt 1)], VNone])"
proof -
  have h: "plain_data (VList [VDict [(''b'', VInt 1), (''a'', VStr ''x'')], VNone])"
    "avoids [''_type'', ''*'', ''&''] (VList [VDict [(''b'', VInt 1), (''a'', VStr ''x'')], VNone])"
    by simp_all
  have s: "sort_dicts (VList [VDict [(''b'', VInt 1), (''a'', VStr ''x'')], VNone]) =
      VList [VDict [(''a'', VStr ''x''), (''b'', VInt 1)], VNone]"
    by (simp add: sorted_items_def)
  show ?thesis
    using dedup_like_plain [OF h, of sample_fields] h s by simp
qed

text \<open>
  The two encoders reserve different keys: on a dictionary with the key \<^verbatim>\<open>"_type"\<close>
  the plain encoder raises and the deduplicating encoder returns the dictionary.
\<close>

theorem dedup_like_plain_counterexample:
  "plain_data (VDict [(''_type'', VInt 1)]) \<and>
   plain_encode sample_fields (VDict [(''_type'', VInt 1)]) = Inl AssertionError \<and>
   dedup_encode (VDict [(''_type'', VInt 1)]) = Inr (VDict [(''_type'', VInt 1)])"
  by (simp add: dedup_encode_def sorted_items_def)

section \<open>Deduplication of equal annotation objects\<close>







lemma py_value_list_append [simp]:
  "py_value_list F (xs @ ys) = (py_value_list F xs \<and> py_value_list F ys)"
  by (induction xs) auto

lemma avoids_list_append [simp]:
  "avoids_list R (xs @ ys) = (avoids_list R xs \<and> avoids_list R ys)"
  by (induction xs) auto






section \<open>The cache entry\<close>

lemma py_eq_refl: "py_eq a a"
  by (simp add: py_eq_def)

lemma eq_form_list_strs: "eq_form_list (map VStr cs) = map VStr cs"
  by (induction cs) auto

lemma normalize_list_strs: "py_normalize_list (map VStr cs) = map VStr cs"
  by (induction cs) auto

lemma py_eq_str_lists: "py_eq (VList (map VStr cs)) (VList (map VStr cs')) \<longleftrightarrow> cs = cs'"
proof -
  have "inj VStr" by (simp add: inj_def)
  then show ?thesis
    by (auto simp: py_eq_def eq_form_list_strs dest: map_injective)
qed

lemma map_fst_eq_form_items: "map fst (eq_form_items kvs) = map fst kvs"
  by (induction kvs) auto

lemma map_fst_normalize_items: "map fst (py_normalize_items kvs) = map fst kvs"
  by (induction kvs) auto

lemma py_eq_dict_keys:
  assumes "py_eq (VDict a) (VDict b)"
  shows "fst ` set a = fst ` set b"
proof -
  from assms have "eq_form_items (sorted_items a) = eq_form_items (sorted_items b)"
    by (simp add: py_eq_def)
  then have "map fst (sorted_items a) = map fst (sorted_items b)"
    by (metis map_fst_eq_form_items)
  then have "set (map fst (sorted_items a)) = set (map fst (sorted_items b))" by simp
  then show ?thesis by (simp only: set_map set_sorted_items)
qed

lemma cache_get_empty: "data self = VNone \<Longrightarrow> cache_get F self chunks config = Inr VNone"
  by (simp add: cache_get_def cache_validate_def)

lemma cache_get_mismatch:
  assumes "data self = VDict kvs" and "map_of kvs ''config'' = Some sc"
    and "\<not> py_eq sc (py_normalize config) \<or> \<not> py_eq (stored self ''chunks'') (py_normalize chunks)"
  shows "cache_get F self chunks config = Inr VNone"
  using assms
  by (auto simp: cache_get_def cache_validate_def validate_detailed_def validate_contents_def
      stored_def split: option.splits)

lemma cache_get_hit:
  assumes "cache_get F self chunks config = Inr a" and "a \<noteq> VNone"
  shows "\<exists>kvs sc. data self = VDict kvs \<and> map_of kvs ''config'' = Some sc \<and>
           py_eq sc (py_normalize config) \<and>
           py_eq (stored self ''chunks'') (py_normalize chunks) \<and>
           plain_decode F (stored self ''annotated'') = Inr a"
proof (cases "data self")
  case (VDict kvs)
  with assms show ?thesis
    by (auto simp: cache_get_def cache_validate_def validate_detailed_def validate_contents_def
        stored_def split: option.splits if_splits sum.splits)
qed (use assms in \<open>auto simp: cache_get_def cache_validate_def split: sum.splits if_splits\<close>)

text \<open>
  Claim C2 (\<^verbatim>\<open>Cache.get\<close> is an exact match). An empty entry gives \<^verbatim>\<open>None\<close>. For a
  populated entry, \<^verbatim>\<open>get\<close> gives \<^verbatim>\<open>None\<close>, and raises nothing, as soon as the stored
  configuration differs from the normalized incoming one or the stored chunks differ
  from the normalized incoming ones; in particular when two chunk lists differ anywhere,
  be it in one character, and when the two configurations do not have the same keys.
  Whenever \<^verbatim>\<open>get\<close> returns an annotation, the entry is populated, both comparisons
  succeeded and the annotation is the decoded stored one.
\<close>

theorem cache_get_exact:
  "(data self = VNone \<longrightarrow> cache_get F self chunks config = Inr VNone) \<and>
   (data self = VDict kvs \<and> map_of kvs ''config'' = Some sc \<and>
      (\<not> py_eq sc (py_normalize config) \<or> \<not> py_eq (stored self ''chunks'') (py_normalize chunks))
      \<longrightarrow> cache_get F self chunks config = Inr VNone) \<and>
   (data self = VDict kvs \<and> map_of kvs ''config'' = Some sc \<and>
      stored self ''chunks'' = VList (map VStr cs) \<and> chunks = VList (map VStr cs') \<and> cs \<noteq> cs'
      \<longrightarrow> cache_get F self chunks config = Inr VNone) \<and>
   (data self = VDict kvs \<and> map_of kvs ''config'' = Some (VDict skw) \<and>
      config = VDict kw \<and> fst ` set skw \<noteq> fst ` set kw
      \<longrightarrow> cache_get F self chunks config = Inr VNone) \<and>
   (cache_get F self chunks config = Inr a \<and> a \<noteq> VNone \<longrightarrow>
      (\<exists>kvs sc. data self = VDict kvs \<and> map_of kvs ''config'' = Some sc \<and>
         py_eq sc (py_normalize config) \<and>
         py_eq (stored self ''chunks'') (py_normalize chunks) \<and>
         plain_decode F (stored self ''annotated'') = Inr a))"
proof (intro conjI impI)
  assume "data self = VNone"
  then show "cache_get F self chunks config = Inr VNone" by (rule cache_get_empty)
next
  assume "data self = VDict kvs \<and> map_of kvs ''config'' = Some sc \<and>
      (\<not> py_eq sc (py_normalize config) \<or> \<not> py_eq (stored self ''chunks'') (py_normalize chunks))"
  then show "cache_get F self chunks config = Inr VNone"
    using cache_get_mismatch [of self kvs sc config chunks F] by blast
next
  assume a: "data self = VDict kvs \<and> map_of kvs ''config'' = Some sc \<and>
      stored self ''chunks'' = VList (map VStr cs) \<and> chunks = VList (map VStr cs') \<and> cs \<noteq> cs'"
  then have "\<not> py_eq (stored self ''chunks'') (py_normalize chunks)"
    by (simp add: normalize_list_strs py_eq_str_lists)
  with a show "cache_get F self chunks config = Inr VNone"
    using cache_get_mismatch [of self kvs sc config chunks F] by blast
next
  assume a: "data self = VDict kvs \<and> map_of kvs ''config'' = Some (VDict skw) \<and>
      config = VDict kw \<and> fst ` set skw \<noteq> fst ` set kw"
  have "\<not> py_eq (VDict skw) (py_normalize config)"
  proof
    assume "py_eq (VDict skw) (py_normalize config)"
    with a have "fst ` set skw = fst ` set (py_normalize_items kw)"
      using py_eq_dict_keys [of skw "py_normalize_items kw"] by simp
    also have "\<dots> = fst ` set kw"
      by (metis map_fst_normalize_items set_map)
    finally show False using a by simp
  qed
  with a show "cache_get F self chunks config = Inr VNone"
    using cache_get_mismatch [of self kvs "VDict skw" config chunks F] by blast
next
  assume "cache_get F self chunks config = Inr a \<and> a \<noteq> VNone"
  then show "\<exists>kvs sc. data self = VDict kvs \<and> map_of kvs ''config'' = Some sc \<and>
         py_eq sc (py_normalize config) \<and>
         py_eq (stored self ''chunks'') (py_normalize chunks) \<and>
         plain_decode F (stored self ''annotated'') = Inr a"
    using cache_get_hit [of F self chunks config a] by blast
qed

lemma sample_entry_data:
  "data sample_entry =
     VDict [(''generator'', VList [VStr ''Coq'', VStr ''8.13'']),
            (''config'', VDict [(''args'', VList [])]),
            (''chunks'', VList (map VStr sample_chunks)),
            (''annotated'',
               VList [VList [VDict [(''_type'', VStr ''text''),
                                    (''contents'', VStr ''Lemma foo: True.'')]]])]"
  by (simp add: sample_entry_def Cache_def)

text \<open>
  \<^verbatim>\<open>get\<close> on an empty entry, and on a populated one with a chunk one character longer,
  with one more configuration key, and with the very chunks and configuration stored.
\<close>

theorem cache_get_exact_witness:
  "cache_get sample_fields (Cache VNone None) (VList (map VStr sample_chunks)) sample_config
     = Inr VNone \<and>
   cache_get sample_fields sample_entry
     (VList (map VStr [''Lemma foo: True.'', ''Proof. trivial. Qed. '']))
     sample_config = Inr VNone \<and>
   cache_get sample_fields sample_entry (VList (map VStr sample_chunks))
     (VDict [(''args'', VList []), (''debug'', VInt 1)]) = Inr VNone \<and>
   cache_get sample_fields sample_entry (VList (map VStr sample_chunks)) sample_config
     = Inr sample_annotated \<and>
   sample_annotated \<noteq> VNone \<and>
   py_eq (VDict [(''args'', VList [])]) (py_normalize sample_config) \<and>
   py_eq (stored sample_entry ''chunks'') (py_normalize (VList (map VStr sample_chunks)))"
proof -
  have d0: "data (Cache VNone None) = VNone" by (simp add: Cache_def)
  have c1: "cache_get sample_fields (Cache VNone None) (VList (map VStr sample_chunks))
      sample_config = Inr VNone"
    using cache_get_exact [of "Cache VNone None" sample_fields "VList (map VStr sample_chunks)"
        sample_config] d0 by blast
  have cfg: "map_of [(''generator'', VList [VStr ''Coq'', VStr ''8.13'']),
            (''config'', VDict [(''args'', VList [])]),
            (''chunks'', VList (map VStr sample_chunks)),
            (''annotated'',
               VList [VList [VDict [(''_type'', VStr ''text''),
                                    (''contents'', VStr ''Lemma foo: True.'')]]])] ''config''
      = Some (VDict [(''args'', VList [])])"
    by simp
  have st: "stored sample_entry ''chunks'' = VList (map VStr sample_chunks)"
    by (simp add: stored_def sample_entry_data)
  have ne: "sample_chunks \<noteq> [''Lemma foo: True.'', ''Proof. trivial. Qed. '']"
    by (simp add: sample_chunks_def)
  have c2: "cache_get sample_fields sample_entry
      (VList (map VStr [''Lemma foo: True.'', ''Proof. trivial. Qed. ''])) sample_config
      = Inr VNone"
    using cache_get_exact [of sample_entry sample_fields
        "VList (map VStr [''Lemma foo: True.'', ''Proof. trivial. Qed. ''])" sample_config
        _ "VDict [(''args'', VList [])]" sample_chunks
        "[''Lemma foo: True.'', ''Proof. trivial. Qed. '']"]
      sample_entry_data cfg st ne by blast
  have keys: "fst ` set [(''args'', VList [])] \<noteq>
      fst ` set [(''args'', VList []), (''debug'', VInt 1)]"
    by auto
  have c3: "cache_get sample_fields sample_entry (VList (map VStr sample_chunks))
      (VDict [(''args'', VList []), (''debug'', VInt 1)]) = Inr VNone"
    using cache_get_exact [of sample_entry sample_fields "VList (map VStr sample_chunks)"
        "VDict [(''args'', VList []), (''debug'', VInt 1)]" _ _ _ _
        "[(''args'', VList [])]" "[(''args'', VList []), (''debug'', VInt 1)]"]
      sample_entry_data cfg keys by blast
  have c4: "cache_get sample_fields sample_entry (VList (map VStr sample_chunks)) sample_config
      = Inr sample_annotated"
    by (simp add: cache_get_def cache_validate_def sample_entry_data sample_config_def
        validate_detailed_def validate_contents_def py_eq_def sample_chunks_def
        sample_annotated_def TYPE_OF_ALIASES_def new_kw_def sample_fields_def
        AList.delete_eq)
  have nn: "sample_annotated \<noteq> VNone" by (simp add: sample_annotated_def)
  from cache_get_exact [of sample_entry sample_fields "VList (map VStr sample_chunks)"
      sample_config _ _ _ _ _ _ sample_annotated] c4 nn
  have c5: "py_eq (VDict [(''args'', VList [])]) (py_normalize sample_config) \<and>
      py_eq (stored sample_entry ''chunks'') (py_normalize (VList (map VStr sample_chunks)))"
    using sample_entry_data cfg by auto
  from c1 c2 c3 c4 nn c5 show ?thesis by blast
qed

lemma cache_update_hit:
  "cache_get F self chunks config = Inr a \<Longrightarrow> a \<noteq> VNone \<Longrightarrow>
   cache_update F self chunks p config = (Inr a, self, [])"
  by (simp add: cache_update_def)

lemma cache_update_miss:
  assumes "cache_get F self chunks config = Inr VNone" and "config = VDict kw"
  shows "\<exists>r self'. cache_update F self chunks p config = (r, self', [(chunks, kw)])"
  using assms by (auto simp: cache_update_def split: sum.splits)

lemma cache_update_store:
  assumes "cache_get F self chunks config = Inr VNone" and "config = VDict kw"
    and "annotate p chunks kw = Inr a"
    and "cache_put F self chunks config a (version_info p) = Inr self'"
  shows "cache_update F self chunks p config = (Inr a, self', [(chunks, kw)])"
  using assms by (simp add: cache_update_def)

lemma cache_put_then_get:
  assumes F: "fields_ok F" and a: "py_value F a" "avoids [''_type''] a"
  shows "\<exists>self'. cache_put F self (VList (map VStr cs)) config a g = Inr self' \<and>
           cache_get F self' (VList (map VStr cs)) config = Inr a \<and>
           stored self' ''chunks'' = VList (map VStr cs) \<and>
           (\<exists>kvs. data self' = VDict kvs \<and> map_of kvs ''config'' = Some (py_normalize config))"
proof -
  from plain_roundtrip_aux(1) [OF F a] obtain js where
    js: "plain_encode F a = Inr js" "plain_decode F js = Inr a" by blast
  then show ?thesis
    by (simp add: cache_put_def cache_get_def cache_validate_def validate_detailed_def
        validate_contents_def py_eq_refl normalize_list_strs stored_def)
qed

text \<open>
  Claim C3 (\<^verbatim>\<open>Cache.update\<close> and the prover). On a hit, \<^verbatim>\<open>update\<close> returns the decoded
  stored annotation, leaves the entry as it is and calls \<^verbatim>\<open>annotate\<close> not at all. On a
  miss it calls \<^verbatim>\<open>annotate\<close> exactly once, with the chunks and the configuration, and
  when the annotation is stored by \<^verbatim>\<open>put\<close> it is returned. After an update that stored
  the annotation of a list of chunks, an update with the same chunks and configuration
  calls the prover zero times and returns that annotation, and an update with any other
  list of chunks calls it once.
\<close>

theorem cache_update_calls:
  "(cache_get F self chunks config = Inr a \<and> a \<noteq> VNone \<longrightarrow>
      cache_update F self chunks p config = (Inr a, self, [])) \<and>
   (cache_get F self chunks config = Inr VNone \<and> config = VDict kw \<longrightarrow>
      (\<exists>r self'. cache_update F self chunks p config = (r, self', [(chunks, kw)])) \<and>
      (\<forall>b self'. annotate p chunks kw = Inr b \<and>
           cache_put F self chunks config b (version_info p) = Inr self' \<longrightarrow>
           cache_update F self chunks p config = (Inr b, self', [(chunks, kw)]))) \<and>
   (fields_ok F \<and> chunks = VList (map VStr cs) \<and> config = VDict kw \<and>
    cache_get F self chunks config = Inr VNone \<and>
    annotate p chunks kw = Inr a \<and> py_value F a \<and> avoids [''_type''] a \<and> a \<noteq> VNone \<longrightarrow>
      (\<exists>self'. cache_update F self chunks p config = (Inr a, self', [(chunks, kw)]) \<and>
         cache_update F self' chunks p config = (Inr a, self', []) \<and>
         (\<forall>cs'. cs' \<noteq> cs \<longrightarrow>
            (\<exists>r self''. cache_update F self' (VList (map VStr cs')) p config =
               (r, self'', [(VList (map VStr cs'), kw)])))))"
proof (intro conjI impI)
  assume "cache_get F self chunks config = Inr a \<and> a \<noteq> VNone"
  then show "cache_update F self chunks p config = (Inr a, self, [])"
    by (simp add: cache_update_hit)
next
  assume m: "cache_get F self chunks config = Inr VNone \<and> config = VDict kw"
  then show "\<exists>r self'. cache_update F self chunks p config = (r, self', [(chunks, kw)])"
    using cache_update_miss [of F self chunks config kw p] by blast
  from m show "\<forall>b self'. annotate p chunks kw = Inr b \<and>
           cache_put F self chunks config b (version_info p) = Inr self' \<longrightarrow>
           cache_update F self chunks p config = (Inr b, self', [(chunks, kw)])"
    using cache_update_store [of F self chunks config kw p] by blast
next
  assume h: "fields_ok F \<and> chunks = VList (map VStr cs) \<and> config = VDict kw \<and>
    cache_get F self chunks config = Inr VNone \<and>
    annotate p chunks kw = Inr a \<and> py_value F a \<and> avoids [''_type''] a \<and> a \<noteq> VNone"
  then obtain self' kvs where s:
    "cache_put F self chunks config a (version_info p) = Inr self'"
    "cache_get F self' chunks config = Inr a"
    "stored self' ''chunks'' = VList (map VStr cs)"
    "data self' = VDict kvs" "map_of kvs ''config'' = Some (py_normalize config)"
    using cache_put_then_get [of F a self cs config "version_info p"] by blast
  have first: "cache_update F self chunks p config = (Inr a, self', [(chunks, kw)])"
    using cache_update_store [of F self chunks config kw p a self'] h s(1) by blast
  have second: "cache_update F self' chunks p config = (Inr a, self', [])"
    using cache_update_hit [OF s(2)] h by blast
  have third: "\<forall>cs'. cs' \<noteq> cs \<longrightarrow>
      (\<exists>r self''. cache_update F self' (VList (map VStr cs')) p config =
         (r, self'', [(VList (map VStr cs'), kw)]))"
  proof (intro allI impI)
    fix cs' :: "string list"
    assume ne: "cs' \<noteq> cs"
    then have "\<not> py_eq (stored self' ''chunks'') (py_normalize (VList (map VStr cs')))"
      using s(3) by (auto simp: normalize_list_strs py_eq_str_lists)
    then have "cache_get F self' (VList (map VStr cs')) config = Inr VNone"
      using cache_get_mismatch [OF s(4) s(5)] by blast
    then show "\<exists>r self''. cache_update F self' (VList (map VStr cs')) p config =
         (r, self'', [(VList (map VStr cs'), kw)])"
      using cache_update_miss [of F self' "VList (map VStr cs')" config kw p] h by blast
  qed
  from first second third
  show "\<exists>self'. cache_update F self chunks p config = (Inr a, self', [(chunks, kw)]) \<and>
         cache_update F self' chunks p config = (Inr a, self', []) \<and>
         (\<forall>cs'. cs' \<noteq> cs \<longrightarrow>
            (\<exists>r self''. cache_update F self' (VList (map VStr cs')) p config =
               (r, self'', [(VList (map VStr cs'), kw)])))"
    by blast
qed

text \<open>
  The three updates of the example: the first stores, the second is answered from the
  entry, the third, with one more empty chunk, calls the prover again.
\<close>

theorem cache_update_calls_witness:
  "cache_update sample_fields (Cache VNone (Some ''doc.v.cache''))
     (VList (map VStr sample_chunks)) sample_prover sample_config =
     (Inr sample_annotated, sample_entry,
      [(VList (map VStr sample_chunks), [(''args'', VList [])])]) \<and>
   cache_update sample_fields sample_entry
     (VList (map VStr sample_chunks)) sample_prover sample_config =
     (Inr sample_annotated, sample_entry, []) \<and>
   (\<exists>r self'. cache_update sample_fields sample_entry
       (VList (map VStr (sample_chunks @ [[]]))) sample_prover sample_config =
     (r, self', [(VList (map VStr (sample_chunks @ [[]])), [(''args'', VList [])])])) \<and>
   (\<exists>self'. cache_update sample_fields (Cache VNone (Some ''doc.v.cache''))
        (VList (map VStr sample_chunks)) sample_prover sample_config =
        (Inr sample_annotated, self',
         [(VList (map VStr sample_chunks), [(''args'', VList [])])]) \<and>
      cache_update sample_fields self' (VList (map VStr sample_chunks)) sample_prover
        sample_config = (Inr sample_annotated, self', []))"
proof -
  let ?c = "VList (map VStr sample_chunks)"
  let ?c3 = "VList (map VStr (sample_chunks @ [[]]))"
  let ?kw = "[(''args'', VList [])]"
  let ?e0 = "Cache VNone (Some ''doc.v.cache'')"
  have cfg: "sample_config = VDict ?kw" by (simp add: sample_config_def)
  have g0: "cache_get sample_fields ?e0 ?c sample_config = Inr VNone"
    by (simp add: cache_get_def cache_validate_def Cache_def)
  have ann: "annotate sample_prover ?c ?kw = Inr sample_annotated"
    "annotate sample_prover ?c3 ?kw = Inr sample_annotated"
    by (simp_all add: sample_prover_def)
  have put0: "cache_put sample_fields ?e0 ?c sample_config sample_annotated
      (version_info sample_prover) = Inr sample_entry"
    by (simp add: cache_put_def sample_annotated_def sample_fields_def Cache_def
        sample_entry_def sample_prover_def sample_config_def)
  have g1: "cache_get sample_fields sample_entry ?c sample_config = Inr sample_annotated"
    by (simp add: cache_get_def cache_validate_def sample_entry_data sample_config_def
        validate_detailed_def validate_contents_def py_eq_def sample_chunks_def
        sample_annotated_def TYPE_OF_ALIASES_def new_kw_def sample_fields_def
        AList.delete_eq)
  have g3: "cache_get sample_fields sample_entry ?c3 sample_config = Inr VNone"
    by (simp add: cache_get_def cache_validate_def sample_entry_data sample_config_def
        validate_detailed_def validate_contents_def py_eq_def sample_chunks_def)
  have nn: "sample_annotated \<noteq> VNone" by (simp add: sample_annotated_def)
  have ok: "py_value sample_fields sample_annotated" "avoids [''_type''] sample_annotated"
    by (simp_all add: sample_annotated_def sample_fields_def)
  have first: "cache_update sample_fields ?e0 ?c sample_prover sample_config =
      (Inr sample_annotated, sample_entry, [(?c, ?kw)])"
    using cache_update_calls [of sample_fields ?e0 ?c sample_config _ sample_prover ?kw]
      g0 cfg ann(1) put0 by blast
  have second: "cache_update sample_fields sample_entry ?c sample_prover sample_config =
      (Inr sample_annotated, sample_entry, [])"
    using cache_update_calls [of sample_fields sample_entry ?c sample_config sample_annotated]
      g1 nn by blast
  have third: "\<exists>r self'. cache_update sample_fields sample_entry ?c3 sample_prover
      sample_config = (r, self', [(?c3, ?kw)])"
    using cache_update_calls [of sample_fields sample_entry ?c3 sample_config _ sample_prover ?kw]
      g3 cfg by blast
  have scenario: "\<exists>self'. cache_update sample_fields ?e0 ?c sample_prover sample_config =
        (Inr sample_annotated, self', [(?c, ?kw)]) \<and>
      cache_update sample_fields self' ?c sample_prover sample_config =
        (Inr sample_annotated, self', [])"
    using cache_update_calls [of sample_fields ?e0 ?c sample_config sample_annotated
        sample_prover ?kw sample_chunks]
      sample_fields_ok g0 cfg ann(1) ok nn by blast
  from first second third scenario show ?thesis by blast
qed

text \<open>
  On a populated entry the accessor returns the stored pair, or the placeholder when the
  entry has no generator.
\<close>

lemma cache_generator_populated:
  assumes "data self = VDict kvs"
  shows "cache_generator self =
           (case map_of kvs ''generator'' of
              None \<Rightarrow> Inr (VTuple [VStr ''Coq+SerAPI'', VStr ''??''])
            | Some g \<Rightarrow> (case py_iter g of Inl e \<Rightarrow> Inl e | Inr args \<Rightarrow> GeneratorInfo args))"
  using assms by (simp add: cache_generator_def GeneratorInfo_def split: option.splits)

text \<open>
  Claim C9 (\<^verbatim>\<open>Cache.generator\<close>). On an entry that was never populated, as
  \<^verbatim>\<open>DummyCacheSet.__getitem__\<close> creates it, \<^verbatim>\<open>self.data\<close> is \<^verbatim>\<open>None\<close> and the accessor
  raises \<^verbatim>\<open>AttributeError\<close> instead of returning the placeholder pair.
\<close>

theorem cache_generator_unpopulated:
  "cache_generator (Cache VNone None) = Inl AttributeError"
  by (simp add: cache_generator_def Cache_def)

section \<open>The cache file set\<close>

definition CACHE_VERSION :: string where
  "CACHE_VERSION = ''2''"

definition METADATA :: pyval where
  "METADATA = VDict [(''cache_version'', VStr CACHE_VERSION)]"

text \<open>\<^verbatim>\<open>KNOWN_COMPRESSIONS\<close>: for each compression the module that opens it and the extension.\<close>

definition KNOWN_COMPRESSIONS :: "(string \<times> string \<times> string) list" where
  "KNOWN_COMPRESSIONS =
     [(''none'', (''builtins'', '''')), (''gzip'', (''gzip'', ''.gz'')), (''xz'', (''lzma'', ''.xz''))]"

text \<open>
  The disk, as far as the cache files go: the JSON value held by each existing file, by
  path, and the log of the operations that changed the disk. Compression and the JSON
  text itself are not represented: a file holds the value that \<^verbatim>\<open>json.load\<close> returns.
\<close>

datatype disk_op = Unlink string | Write string pyval

record disk =
  files :: "(string \<times> pyval) list"
  oplog :: "disk_op list"

record file_cache_set =
  cache_rel_file :: string
  set_cache_file :: string
  wanted_compression :: string
  ondisk_compression :: "string option"
  js :: pyval
  caches :: "(string \<times> cache) list"

text \<open>
  \<^verbatim>\<open>_read\<close>: the first compression, in the order of the table, whose file exists.
\<close>

fun read_first :: "(string \<times> string \<times> string) list \<Rightarrow> string \<Rightarrow> disk \<Rightarrow> string option \<times> pyval" where
  "read_first [] f d = (None, VNone)"
| "read_first ((compression, (module, ext)) # rest) f d =
     (case map_of (files d) (f @ ext) of
        Some content \<Rightarrow> (Some compression, content)
      | None \<Rightarrow> read_first rest f d)"

definition fcs_read :: "string \<Rightarrow> disk \<Rightarrow> string option \<times> pyval" where
  "fcs_read f d = read_first KNOWN_COMPRESSIONS f d"

text \<open>\<^verbatim>\<open>FileCacheSet._validate\<close>, as the truth value that \<^verbatim>\<open>__init__\<close> tests.\<close>

definition fcs_validate :: "pyval \<Rightarrow> error + bool" where
  "fcs_validate j =
     (if \<not> py_truthy j then Inr False
      else case py_getitem j ''metadata'' of
             Inl e \<Rightarrow> Inl e
           | Inr m \<Rightarrow> Inr (validate_detailed m METADATA))"

text \<open>\<^verbatim>\<open>obj.items()\<close>.\<close>

fun py_items :: "pyval \<Rightarrow> error + (string \<times> pyval) list" where
  "py_items (VDict kvs) = Inr kvs"
| "py_items v = Inl AttributeError"

text \<open>
  \<^verbatim>\<open>__init__\<close>. The paths are computed with \<^verbatim>\<open>os.path\<close> from the cache root and the
  document path, and the directory is created; here the resulting relative and full
  paths of the cache file are arguments.
\<close>

definition fcs_init ::
  "string \<Rightarrow> string \<Rightarrow> string option \<Rightarrow> disk \<Rightarrow> error + file_cache_set" where
  "fcs_init rel_file file cache_compression d =
     (let wanted = (case cache_compression of
                      None \<Rightarrow> ''none''
                    | Some c \<Rightarrow> if c = [] then ''none'' else c)
      in if wanted \<notin> set (map fst KNOWN_COMPRESSIONS) then Inl ValueError
         else
           (let (ondisk, j) = fcs_read file d;
                self = \<lparr>cache_rel_file = rel_file, set_cache_file = file,
                        wanted_compression = wanted, ondisk_compression = ondisk,
                        js = j, caches = []\<rparr>
            in case fcs_validate j of
                 Inl e \<Rightarrow> Inl e
               | Inr False \<Rightarrow> Inr self
               | Inr True \<Rightarrow>
                   (case py_getitem j ''caches'' of
                      Inl e \<Rightarrow> Inl e
                    | Inr cs \<Rightarrow>
                        (case py_items cs of
                           Inl e \<Rightarrow> Inl e
                         | Inr items \<Rightarrow>
                             Inr (self\<lparr>caches :=
                                    fold (\<lambda>(lang, dat) m.
                                            AList.update lang (Cache dat (Some rel_file)) m)
                                      (sorted_items items) []\<rparr>)))))"

text \<open>\<^verbatim>\<open>__getitem__\<close>: the entry of the language, registered empty when it is new.\<close>

definition fcs_getitem :: "file_cache_set \<Rightarrow> string \<Rightarrow> cache \<times> file_cache_set" where
  "fcs_getitem self lang =
     (case map_of (caches self) lang of
        Some c \<Rightarrow> (c, self)
      | None \<Rightarrow>
          (Cache VNone (Some (cache_rel_file self)),
           self\<lparr>caches :=
                  AList.update lang (Cache VNone (Some (cache_rel_file self))) (caches self)\<rparr>))"

definition check_recompression :: "file_cache_set \<Rightarrow> bool" where
  "check_recompression self = (ondisk_compression self \<noteq> Some (wanted_compression self))"

text \<open>\<^verbatim>\<open>_delete_old_caches\<close>: every file of the cache, under any extension, is removed.\<close>

fun delete_old_caches :: "(string \<times> string \<times> string) list \<Rightarrow> string \<Rightarrow> disk \<Rightarrow> disk" where
  "delete_old_caches [] f d = d"
| "delete_old_caches ((compression, (module, ext)) # rest) f d =
     delete_old_caches rest f
       (case map_of (files d) (f @ ext) of
          Some content \<Rightarrow>
            d\<lparr>files := AList.delete (f @ ext) (files d), oplog := oplog d @ [Unlink (f @ ext)]\<rparr>
        | None \<Rightarrow> d)"

definition force_write ::
  "file_cache_set \<Rightarrow> pyval \<Rightarrow> disk \<Rightarrow> (error + file_cache_set) \<times> disk" where
  "force_write self j d =
     (let d1 = delete_old_caches KNOWN_COMPRESSIONS (set_cache_file self) d
      in case map_of KNOWN_COMPRESSIONS (wanted_compression self) of
           None \<Rightarrow> (Inl KeyError, d1)
         | Some (module, ext) \<Rightarrow>
             (Inr (self\<lparr>js := j, ondisk_compression := Some (wanted_compression self)\<rparr>),
              d1\<lparr>files := AList.update (set_cache_file self @ ext) j (files d1),
                  oplog := oplog d1 @ [Write (set_cache_file self @ ext) j]\<rparr>))"

text \<open>The snapshot that \<^verbatim>\<open>_write\<close> recomputes.\<close>

definition snapshot :: "file_cache_set \<Rightarrow> pyval" where
  "snapshot self =
     VDict [(''metadata'', METADATA),
            (''caches'', VDict (map (\<lambda>(lang, c). (lang, data c)) (sort_key fst (caches self))))]"

definition fcs_write :: "file_cache_set \<Rightarrow> disk \<Rightarrow> (error + file_cache_set) \<times> disk" where
  "fcs_write self d =
     (if \<not> py_eq (snapshot self) (js self) \<or> check_recompression self
      then force_write self (snapshot self) d
      else (Inr self, d))"

text \<open>\<^verbatim>\<open>__exit__\<close> persists the set, whatever the body of the scope did.\<close>

definition fcs_exit :: "file_cache_set \<Rightarrow> disk \<Rightarrow> (error + file_cache_set) \<times> disk" where
  "fcs_exit self d = fcs_write self d"

text \<open>
  The cache file of the example document, stored with gzip, and a set opened on it that
  wants xz.
\<close>

definition sample_content :: pyval where
  "sample_content =
     VDict [(''metadata'', VDict [(''cache_version'', VStr ''2'')]),
            (''caches'', VDict [(''coq'', data sample_entry)])]"

definition sample_disk :: disk where
  "sample_disk = \<lparr>files = [(''cache/doc.v.cache.gz'', sample_content)], oplog = []\<rparr>"

definition sample_set :: file_cache_set where
  "sample_set =
     \<lparr>cache_rel_file = ''doc.v.cache'', set_cache_file = ''cache/doc.v.cache'',
      wanted_compression = ''xz'', ondisk_compression = Some ''gzip'',
      js = sample_content, caches = [(''coq'', sample_entry)]\<rparr>"

text \<open>
  \<^verbatim>\<open>annotate_chunks\<close> (cli.py), the scope in which the pipeline uses the cache, with a
  cache directory given: the set is opened, the entry of the language is updated in
  place, and the set is persisted on exit, also when the update raised. The prover and
  its configuration come from \<^verbatim>\<open>core.py\<close> and are arguments here.
\<close>

definition annotate_chunks ::
  "fields \<Rightarrow> pyval \<Rightarrow> string \<Rightarrow> string \<Rightarrow> string \<Rightarrow> prover \<Rightarrow> pyval \<Rightarrow> string option \<Rightarrow> disk
     \<Rightarrow> (error + pyval) \<times> disk \<times> (pyval \<times> (string \<times> pyval) list) list" where
  "annotate_chunks F chunks rel_file file input_language p config cache_compression d =
     (case fcs_init rel_file file cache_compression d of
        Inl e \<Rightarrow> (Inl e, d, [])
      | Inr s \<Rightarrow>
          (let (c, s1) = fcs_getitem s input_language;
               (r, c', calls) = cache_update F c chunks p config;
               s2 = s1\<lparr>caches := AList.update input_language c' (caches s1)\<rparr>;
               (w, d') = fcs_exit s2 d
           in case w of Inl e \<Rightarrow> (Inl e, d', calls) | Inr s3 \<Rightarrow> (r, d', calls)))"

text \<open>
  A cache file as the program writes it: a dictionary with the two fields
  \<^verbatim>\<open>metadata\<close> and \<^verbatim>\<open>caches\<close>, in any order, the metadata of the current version and
  the caches a dictionary by language.
\<close>

definition cache_file_content :: "pyval \<Rightarrow> (string \<times> pyval) list \<Rightarrow> bool" where
  "cache_file_content j cs \<longleftrightarrow>
     (case j of
        VDict kvs \<Rightarrow>
          map fst (sorted_items kvs) = [''caches'', ''metadata''] \<and>
          map_of kvs ''caches'' = Some (VDict cs) \<and>
          (case map_of kvs ''metadata'' of None \<Rightarrow> False | Some m \<Rightarrow> py_eq m METADATA) \<and>
          distinct (map fst cs)
      | _ \<Rightarrow> False)"

text \<open>The entries that \<^verbatim>\<open>__init__\<close> registers from the caches of a valid file.\<close>

definition loaded_entries :: "string \<Rightarrow> (string \<times> pyval) list \<Rightarrow> (string \<times> cache) list" where
  "loaded_entries rel cs = map (\<lambda>(lang, dat). (lang, Cache dat (Some rel))) (sorted_items cs)"

text \<open>A prover whose \<^verbatim>\<open>annotate\<close> raises, and a disk without any cache file.\<close>

definition failing_prover :: prover where
  "failing_prover =
     \<lparr>annotate = (\<lambda>chunks kw. Inl ValueError),
      version_info = VTuple [VStr ''Coq'', VStr ''8.13'']\<rparr>"

definition empty_disk :: disk where
  "empty_disk = \<lparr>files = [], oplog = []\<rparr>"

lemma cache_file_contentD:
  assumes "cache_file_content j cs"
  obtains kvs m where "j = VDict kvs"
    "kvs = [(''caches'', VDict cs), (''metadata'', m)] \<or>
     kvs = [(''metadata'', m), (''caches'', VDict cs)]"
    "py_eq m METADATA" "distinct (map fst cs)"
proof -
  from assms obtain kvs where j: "j = VDict kvs"
    by (cases j) (simp_all add: cache_file_content_def)
  from assms j have keys: "map fst (sorted_items kvs) = [''caches'', ''metadata'']"
    and c: "map_of kvs ''caches'' = Some (VDict cs)"
    and d: "distinct (map fst cs)"
    by (simp_all add: cache_file_content_def)
  from assms j obtain m where m: "map_of kvs ''metadata'' = Some m" "py_eq m METADATA"
    by (cases "map_of kvs ''metadata''") (simp_all add: cache_file_content_def)
  have "length (sorted_items kvs) = length kvs" by (simp add: sorted_items_def)
  moreover have "length (map fst (sorted_items kvs)) = 2" by (simp only: keys) simp
  ultimately have "length kvs = 2" by simp
  then obtain p q where kvs: "kvs = [p, q]"
    by (cases kvs; cases "tl kvs") auto
  obtain k1 v1 where p: "p = (k1, v1)" by (cases p)
  obtain k2 v2 where q: "q = (k2, v2)" by (cases q)
  have "set (map fst (sorted_items kvs)) = fst ` set kvs" by simp
  then have ks: "{k1, k2} = {''caches'', ''metadata''}"
    unfolding keys using kvs p q by auto
  then have "(k1 = ''caches'' \<and> k2 = ''metadata'') \<or> (k1 = ''metadata'' \<and> k2 = ''caches'')"
    by (auto simp: doubleton_eq_iff)
  then have "kvs = [(''caches'', VDict cs), (''metadata'', m)] \<or>
      kvs = [(''metadata'', m), (''caches'', VDict cs)]"
    using c m(1) kvs p q by auto
  with j m(2) d show ?thesis using that by blast
qed

lemma fold_update_entries:
  assumes "distinct (map fst items)"
  shows "fold (\<lambda>(lang, dat) m. AList.update lang (Cache dat f) m) items [] =
           map (\<lambda>(lang, dat). (lang, Cache dat f)) items"
proof -
  let ?g = "\<lambda>(lang, dat). (lang, Cache dat f)"
  have fst_g: "map fst (map ?g items) = map fst items"
    by (induction items) auto
  have "fold (\<lambda>(lang, dat) m. AList.update lang (Cache dat f) m) items [] =
      fold (\<lambda>(k, w) d. AList.update k w d) (map ?g items) []"
    by (induction items rule: rev_induct) auto
  also have "\<dots> = [] @ map ?g items"
    by (rule fold_update_fresh) (simp_all only: fst_g assms set_simps image_empty Int_empty_right)
  finally show ?thesis by simp
qed

lemma distinct_map_insort_key:
  "distinct (map f (insort_key f x xs)) = (f x \<notin> f ` set xs \<and> distinct (map f xs))"
  by (induction xs) (auto simp: set_insort_key)

lemma distinct_sorted_items: "distinct (map fst (sorted_items cs)) = distinct (map fst cs)"
  unfolding sorted_items_def
  by (induction cs) (simp_all add: distinct_map_insort_key)

lemma known_compression_nonempty:
  "compression \<in> set (map fst KNOWN_COMPRESSIONS) \<Longrightarrow> compression \<noteq> []"
  by (auto simp: KNOWN_COMPRESSIONS_def)

lemma fcs_validate_content:
  assumes "cache_file_content j cs"
  shows "fcs_validate j = Inr True" and "py_getitem j ''caches'' = Inr (VDict cs)"
proof -
  from assms obtain kvs m where j: "j = VDict kvs"
    and kvs: "kvs = [(''caches'', VDict cs), (''metadata'', m)] \<or>
      kvs = [(''metadata'', m), (''caches'', VDict cs)]"
    and m: "py_eq m METADATA"
    by (rule cache_file_contentD)
  from kvs have look: "map_of kvs ''metadata'' = Some m" "map_of kvs ''caches'' = Some (VDict cs)"
    "kvs \<noteq> []"
    by auto
  show "fcs_validate j = Inr True"
    using look m by (simp add: fcs_validate_def j validate_detailed_def)
  show "py_getitem j ''caches'' = Inr (VDict cs)"
    using look by (simp add: j)
qed

lemma fcs_init_content:
  assumes read: "fcs_read path d = (ondisk, j)"
    and content: "cache_file_content j cs"
    and known: "compression \<in> set (map fst KNOWN_COMPRESSIONS)"
  shows "fcs_init rel path (Some compression) d =
           Inr \<lparr>cache_rel_file = rel, set_cache_file = path, wanted_compression = compression,
                ondisk_compression = ondisk, js = j, caches = loaded_entries rel cs\<rparr>"
proof -
  from content have d: "distinct (map fst cs)" by (rule cache_file_contentD)
  then have "distinct (map fst (sorted_items cs))" by (simp add: distinct_sorted_items)
  then have fold: "fold (\<lambda>(lang, dat) m. AList.update lang (Cache dat (Some rel)) m)
      (sorted_items cs) [] = loaded_entries rel cs"
    unfolding loaded_entries_def by (rule fold_update_entries)
  show ?thesis
    using known known_compression_nonempty [OF known] fcs_validate_content [OF content]
    by (simp add: fcs_init_def read fold)
qed

lemma map_fst_entries:
  "map fst (map (\<lambda>(lang, dat). (lang, Cache dat f)) xs) = map fst xs"
  by (induction xs) auto

lemma map_data_entries:
  "map (\<lambda>(lang, c). (lang, data c)) (map (\<lambda>(lang, dat). (lang, Cache dat f)) xs) = xs"
  by (induction xs) (auto simp: Cache_def)

lemma snapshot_loaded:
  assumes content: "cache_file_content j cs" and "js self = j"
    and "caches self = loaded_entries (cache_rel_file self) cs"
  shows "py_eq (snapshot self) (js self)"
proof -
  let ?g = "\<lambda>(lang, dat). (lang, Cache dat (Some (cache_rel_file self)))"
  from content obtain kvs m where j: "j = VDict kvs"
    and kvs: "kvs = [(''caches'', VDict cs), (''metadata'', m)] \<or>
      kvs = [(''metadata'', m), (''caches'', VDict cs)]"
    and m: "py_eq m METADATA"
    by (rule cache_file_contentD)
  have keys: "map fst (map ?g (sorted_items cs)) = map fst (sorted_items cs)"
    by (rule map_fst_entries)
  have "sorted (map fst (sorted_items cs))"
    by (simp add: sorted_items_def)
  then have "sorted (map fst (map ?g (sorted_items cs)))" by (simp only: keys)
  then have sorted: "sort_key fst (map ?g (sorted_items cs)) = map ?g (sorted_items cs)"
    by (rule sort_key_id_if_sorted)
  have unwrap: "map (\<lambda>(lang, c). (lang, data c)) (map ?g (sorted_items cs)) = sorted_items cs"
    by (rule map_data_entries)
  have snap: "snapshot self =
      VDict [(''metadata'', METADATA), (''caches'', VDict (sorted_items cs))]"
    by (simp only: snapshot_def assms(3) loaded_entries_def sorted unwrap)
  have idem: "sorted_items (sorted_items cs) = sorted_items cs"
    by (rule sorted_items_idem) simp
  have t1: "sorted_items [(''metadata'', METADATA), (''caches'', VDict (sorted_items cs))] =
      [(''caches'', VDict (sorted_items cs)), (''metadata'', METADATA)]"
    by (simp add: sorted_items_def)
  have left: "eq_form (snapshot self) =
      VDict [(''caches'', VDict (eq_form_items (sorted_items cs))), (''metadata'', eq_form METADATA)]"
    by (simp add: snap t1 idem)
  have t2: "sorted_items kvs = [(''caches'', VDict cs), (''metadata'', m)]"
    using kvs by (auto simp: sorted_items_def)
  have right: "eq_form j =
      VDict [(''caches'', VDict (eq_form_items (sorted_items cs))), (''metadata'', eq_form m)]"
    by (simp add: j t2)
  from m have "eq_form m = eq_form METADATA" by (simp add: py_eq_def)
  with left right show ?thesis by (simp add: py_eq_def assms(2))
qed

lemma fcs_exit_unchanged:
  assumes "py_eq (snapshot self) (js self)"
    and "ondisk_compression self = Some (wanted_compression self)"
  shows "fcs_exit self d = (Inr self, d)"
  using assms by (simp add: fcs_exit_def fcs_write_def check_recompression_def)

lemma oplog_delete_old_caches:
  "\<exists>ops. oplog (delete_old_caches K f d) = oplog d @ ops"
proof (induction K f d rule: delete_old_caches.induct)
  case (1 f d)
  then show ?case by simp
next
  case (2 compression module ext rest f d)
  then show ?case by (cases "map_of (files d) (f @ ext)") auto
qed

lemma fcs_exit_writes:
  assumes "\<not> py_eq (snapshot self) (js self) \<or>
      ondisk_compression self \<noteq> Some (wanted_compression self)"
    and "map_of KNOWN_COMPRESSIONS (wanted_compression self) = Some (module, ext)"
  shows "\<exists>ops. oplog (snd (fcs_exit self d)) =
           oplog d @ ops @ [Write (set_cache_file self @ ext) (snapshot self)]"
proof -
  obtain ops where
    "oplog (delete_old_caches KNOWN_COMPRESSIONS (set_cache_file self) d) = oplog d @ ops"
    using oplog_delete_old_caches by blast
  then show ?thesis
    using assms
    by (auto simp: fcs_exit_def fcs_write_def check_recompression_def force_write_def Let_def)
qed

text \<open>
  Claim C5 (persisting on close). If closing a cache file set changes the disk, then
  the recomputed snapshot differs from the loaded content or the requested compression
  differs from the one found on disk; and in either case it does write the snapshot,
  under the requested compression. In particular, opening a set on a cache file of the
  current version, found under the requested compression, and closing it without any
  change leaves the disk as it is: no file is removed and none is written.
\<close>

theorem fcs_close_writes:
  "(snd (fcs_exit self d) \<noteq> d \<longrightarrow>
      \<not> py_eq (snapshot self) (js self) \<or>
      ondisk_compression self \<noteq> Some (wanted_compression self)) \<and>
   ((\<not> py_eq (snapshot self) (js self) \<or>
       ondisk_compression self \<noteq> Some (wanted_compression self)) \<and>
     map_of KNOWN_COMPRESSIONS (wanted_compression self) = Some (module, ext) \<longrightarrow>
      (\<exists>ops. oplog (snd (fcs_exit self d)) =
         oplog d @ ops @ [Write (set_cache_file self @ ext) (snapshot self)])) \<and>
   (fcs_read path d = (Some compression, j) \<and> cache_file_content j cs \<and>
     compression \<in> set (map fst KNOWN_COMPRESSIONS) \<longrightarrow>
      (\<exists>self'. fcs_init rel path (Some compression) d = Inr self' \<and>
         fcs_exit self' d = (Inr self', d)))"
proof (intro conjI impI)
  assume "snd (fcs_exit self d) \<noteq> d"
  then show "\<not> py_eq (snapshot self) (js self) \<or>
      ondisk_compression self \<noteq> Some (wanted_compression self)"
    using fcs_exit_unchanged [of self d] by auto
next
  assume "(\<not> py_eq (snapshot self) (js self) \<or>
       ondisk_compression self \<noteq> Some (wanted_compression self)) \<and>
     map_of KNOWN_COMPRESSIONS (wanted_compression self) = Some (module, ext)"
  then show "\<exists>ops. oplog (snd (fcs_exit self d)) =
         oplog d @ ops @ [Write (set_cache_file self @ ext) (snapshot self)]"
    using fcs_exit_writes [of self module ext d] by blast
next
  assume a: "fcs_read path d = (Some compression, j) \<and> cache_file_content j cs \<and>
     compression \<in> set (map fst KNOWN_COMPRESSIONS)"
  let ?s = "\<lparr>cache_rel_file = rel, set_cache_file = path, wanted_compression = compression,
      ondisk_compression = Some compression, js = j, caches = loaded_entries rel cs\<rparr>"
  from a have r: "fcs_read path d = (Some compression, j)"
    and c: "cache_file_content j cs"
    and k: "compression \<in> set (map fst KNOWN_COMPRESSIONS)"
    by simp_all
  have init: "fcs_init rel path (Some compression) d = Inr ?s"
    using fcs_init_content [OF r c k] .
  from c have "py_eq (snapshot ?s) (js ?s)"
    by (intro snapshot_loaded [of j cs]) simp_all
  then have "fcs_exit ?s d = (Inr ?s, d)"
    by (intro fcs_exit_unchanged) simp_all
  with init show "\<exists>self'. fcs_init rel path (Some compression) d = Inr self' \<and>
         fcs_exit self' d = (Inr self', d)"
    by blast
qed

lemma entry_of_loaded:
  assumes "distinct (map fst cs)" and "map_of cs lang = Some dat"
  shows "map_of (loaded_entries rel cs) lang = Some (Cache dat (Some rel))"
proof -
  from assms(2) have "(lang, dat) \<in> set (sorted_items cs)"
    by (simp add: map_of_SomeD)
  then have "(lang, Cache dat (Some rel)) \<in> set (loaded_entries rel cs)"
    unfolding loaded_entries_def by force
  moreover have "distinct (map fst (loaded_entries rel cs))"
    unfolding loaded_entries_def
    by (simp only: map_fst_entries distinct_sorted_items assms(1))
  ultimately show ?thesis by (rule map_of_is_SomeI [rotated])
qed

lemma update_same: "map_of al k = Some v \<Longrightarrow> AList.update k v al = al"
  by (induction al) (auto split: if_splits)

text \<open>
  Claim C6 (a scope that populates nothing). Take a scope of \<^verbatim>\<open>annotate_chunks\<close> opened
  on an existing cache file of the current version, found under the requested
  compression, for a language that has an entry in the file. If the update leaves that
  entry as it was (a hit, or a failure before anything is stored), closing the scope
  writes nothing: the disk is unchanged.
\<close>

theorem fcs_scope_without_population:
  assumes read: "fcs_read path d = (Some compression, j)"
    and content: "cache_file_content j cs"
    and known: "compression \<in> set (map fst KNOWN_COMPRESSIONS)"
    and lang: "map_of cs lang = Some dat"
    and unpopulated: "cache_update F (Cache dat (Some rel)) chunks p config =
        (r, Cache dat (Some rel), calls)"
  shows "annotate_chunks F chunks rel path lang p config (Some compression) d = (r, d, calls)"
proof -
  let ?s = "\<lparr>cache_rel_file = rel, set_cache_file = path, wanted_compression = compression,
      ondisk_compression = Some compression, js = j, caches = loaded_entries rel cs\<rparr>"
  have init: "fcs_init rel path (Some compression) d = Inr ?s"
    using fcs_init_content [OF read content known] .
  from content have dist: "distinct (map fst cs)" by (rule cache_file_contentD)
  have entry: "map_of (caches ?s) lang = Some (Cache dat (Some rel))"
    using entry_of_loaded [OF dist lang] by simp
  then have get: "fcs_getitem ?s lang = (Cache dat (Some rel), ?s)"
    by (simp add: fcs_getitem_def)
  have same: "?s\<lparr>caches := AList.update lang (Cache dat (Some rel)) (caches ?s)\<rparr> = ?s"
    using update_same [OF entry] by simp
  have "py_eq (snapshot ?s) (js ?s)"
    using content by (intro snapshot_loaded [of j cs]) simp_all
  then have exit: "fcs_exit ?s d = (Inr ?s, d)"
    by (intro fcs_exit_unchanged) simp_all
  show ?thesis
    unfolding annotate_chunks_def init
    by (simp only: sum.case get prod.case Let_def unpopulated same exit)
qed

lemma sample_entry_hit:
  "cache_get sample_fields sample_entry (VList (map VStr sample_chunks)) sample_config =
     Inr sample_annotated"
  by (simp add: cache_get_def cache_validate_def sample_entry_data sample_config_def
      validate_detailed_def validate_contents_def py_eq_def sample_chunks_def
      sample_annotated_def TYPE_OF_ALIASES_def new_kw_def sample_fields_def
      AList.delete_eq)

lemma sample_disk_read:
  "fcs_read ''cache/doc.v.cache'' sample_disk = (Some ''gzip'', sample_content)"
  by (simp add: fcs_read_def KNOWN_COMPRESSIONS_def sample_disk_def)

lemma sample_content_ok:
  "cache_file_content sample_content [(''coq'', data sample_entry)]"
  by (simp add: cache_file_content_def sample_content_def sorted_items_def METADATA_def
      CACHE_VERSION_def py_eq_def)

text \<open>
  A cache file stored with gzip: closing a set that wants xz rewrites it, opening and
  closing one that wants gzip does not touch the disk.
\<close>

theorem fcs_close_writes_witness:
  "snd (fcs_exit sample_set sample_disk) \<noteq> sample_disk \<and>
   ondisk_compression sample_set \<noteq> Some (wanted_compression sample_set) \<and>
   map_of KNOWN_COMPRESSIONS (wanted_compression sample_set) = Some (''lzma'', ''.xz'') \<and>
   (\<exists>ops. oplog (snd (fcs_exit sample_set sample_disk)) =
      oplog sample_disk @ ops @ [Write (''cache/doc.v.cache'' @ ''.xz'') (snapshot sample_set)]) \<and>
   fcs_read ''cache/doc.v.cache'' sample_disk = (Some ''gzip'', sample_content) \<and>
   cache_file_content sample_content [(''coq'', data sample_entry)] \<and>
   ''gzip'' \<in> set (map fst KNOWN_COMPRESSIONS) \<and>
   (\<exists>self'. fcs_init ''doc.v.cache'' ''cache/doc.v.cache'' (Some ''gzip'') sample_disk = Inr self' \<and>
      fcs_exit self' sample_disk = (Inr self', sample_disk))"
proof -
  have re: "ondisk_compression sample_set \<noteq> Some (wanted_compression sample_set)"
    by (simp add: sample_set_def)
  have ext: "map_of KNOWN_COMPRESSIONS (wanted_compression sample_set) = Some (''lzma'', ''.xz'')"
    by (simp add: sample_set_def KNOWN_COMPRESSIONS_def)
  have scf: "set_cache_file sample_set = ''cache/doc.v.cache''"
    by (simp add: sample_set_def)
  from fcs_close_writes [where self = sample_set and d = sample_disk
      and module = "''lzma''" and ext = "''.xz''"] re ext
  obtain ops where w: "oplog (snd (fcs_exit sample_set sample_disk)) =
      oplog sample_disk @ ops @ [Write (''cache/doc.v.cache'' @ ''.xz'') (snapshot sample_set)]"
    unfolding scf by blast
  then have "oplog (snd (fcs_exit sample_set sample_disk)) \<noteq> oplog sample_disk" by simp
  then have changed: "snd (fcs_exit sample_set sample_disk) \<noteq> sample_disk" by auto
  have known: "''gzip'' \<in> set (map fst KNOWN_COMPRESSIONS)"
    by (simp add: KNOWN_COMPRESSIONS_def)
  from fcs_close_writes [where path = "''cache/doc.v.cache''" and d = sample_disk
      and compression = "''gzip''" and j = sample_content
      and cs = "[(''coq'', data sample_entry)]" and rel = "''doc.v.cache''"]
    sample_disk_read sample_content_ok known
  have idem: "\<exists>self'. fcs_init ''doc.v.cache'' ''cache/doc.v.cache'' (Some ''gzip'') sample_disk
        = Inr self' \<and> fcs_exit self' sample_disk = (Inr self', sample_disk)"
    by blast
  from changed re ext w sample_disk_read sample_content_ok known idem show ?thesis by blast
qed

text \<open>The example document, annotated a second time: a hit, and an untouched disk.\<close>

theorem fcs_scope_without_population_witness:
  "fcs_read ''cache/doc.v.cache'' sample_disk = (Some ''gzip'', sample_content) \<and>
   cache_file_content sample_content [(''coq'', data sample_entry)] \<and>
   ''gzip'' \<in> set (map fst KNOWN_COMPRESSIONS) \<and>
   map_of [(''coq'', data sample_entry)] ''coq'' = Some (data sample_entry) \<and>
   cache_update sample_fields (Cache (data sample_entry) (Some ''doc.v.cache''))
     (VList (map VStr sample_chunks)) sample_prover sample_config =
     (Inr sample_annotated, Cache (data sample_entry) (Some ''doc.v.cache''), []) \<and>
   annotate_chunks sample_fields (VList (map VStr sample_chunks)) ''doc.v.cache''
     ''cache/doc.v.cache'' ''coq'' sample_prover sample_config (Some ''gzip'') sample_disk =
     (Inr sample_annotated, sample_disk, [])"
proof -
  have known: "''gzip'' \<in> set (map fst KNOWN_COMPRESSIONS)"
    by (simp add: KNOWN_COMPRESSIONS_def)
  have lang: "map_of [(''coq'', data sample_entry)] ''coq'' = Some (data sample_entry)"
    by simp
  have e: "Cache (data sample_entry) (Some ''doc.v.cache'') = sample_entry"
    by (simp add: sample_entry_def Cache_def)
  have nn: "sample_annotated \<noteq> VNone" by (simp add: sample_annotated_def)
  have hit: "cache_update sample_fields (Cache (data sample_entry) (Some ''doc.v.cache''))
     (VList (map VStr sample_chunks)) sample_prover sample_config =
     (Inr sample_annotated, Cache (data sample_entry) (Some ''doc.v.cache''), [])"
    unfolding e using cache_update_hit [OF sample_entry_hit nn] .
  from fcs_scope_without_population [OF sample_disk_read sample_content_ok known lang hit]
    sample_disk_read sample_content_ok known lang hit
  show ?thesis by blast
qed

text \<open>
  When no cache file exists yet, closing the scope writes one although no entry was
  populated: here the prover raises, the entry of the language stays empty, and the
  file is created with that empty entry.
\<close>

theorem fcs_scope_without_population_counterexample:
  "annotate_chunks sample_fields (VList (map VStr sample_chunks)) ''doc.v.cache''
     ''cache/doc.v.cache'' ''coq'' failing_prover sample_config None empty_disk =
   (Inl ValueError,
    \<lparr>files = [(''cache/doc.v.cache'',
                VDict [(''metadata'', VDict [(''cache_version'', VStr ''2'')]),
                       (''caches'', VDict [(''coq'', VNone)])])],
     oplog = [Write ''cache/doc.v.cache''
                (VDict [(''metadata'', VDict [(''cache_version'', VStr ''2'')]),
                        (''caches'', VDict [(''coq'', VNone)])])]\<rparr>,
    [(VList (map VStr sample_chunks), [(''args'', VList [])])])"
  by (simp add: annotate_chunks_def fcs_init_def KNOWN_COMPRESSIONS_def fcs_read_def
      empty_disk_def fcs_validate_def fcs_getitem_def Cache_def cache_update_def
      cache_get_def cache_validate_def sample_config_def failing_prover_def
      fcs_exit_def fcs_write_def snapshot_def py_eq_def METADATA_def CACHE_VERSION_def
      force_write_def sorted_items_def)

section \<open>Pipelines\<close>

text \<open>
  The steps of a pipeline (cli.py) are Python functions. A step is represented by the
  name of its function, \<^verbatim>\<open>write_file(ext, strip)\<close> by its two arguments; what a step
  does when it is called is an argument of the executor.
\<close>

datatype step = Step string | WriteFile string "string list"

text \<open>
  The step lists that occur in \<^verbatim>\<open>PIPELINES\<close> several times, up to the generator, the
  dumper, the extension and the suffixes to strip.
\<close>

definition json_pipeline :: "string list \<Rightarrow> step list" where
  "json_pipeline strip =
     [Step ''read_json'', Step ''annotate_chunks'', Step ''encode_json'', Step ''dump_json'',
      WriteFile ''.io.json'' strip]"

definition json_snippets :: "string \<Rightarrow> string \<Rightarrow> string \<Rightarrow> string list \<Rightarrow> step list" where
  "json_snippets gen dump ext strip =
     [Step ''read_json'', Step ''annotate_chunks'', Step ''apply_transforms'', Step gen,
      Step dump, WriteFile ext strip]"

definition code_null :: "step list" where
  "code_null = [Step ''read_plain'', Step ''parse_plain'', Step ''annotate_chunks'']"

definition code_webpage :: "string list \<Rightarrow> step list" where
  "code_webpage strip =
     [Step ''read_plain'', Step ''parse_plain'', Step ''annotate_chunks'',
      Step ''apply_transforms'', Step ''gen_html_snippets'', Step ''dump_html_standalone'',
      Step ''copy_assets'', WriteFile ''.html'' strip]"

definition code_snippets :: "string \<Rightarrow> string \<Rightarrow> string \<Rightarrow> string list \<Rightarrow> step list" where
  "code_snippets gen dump ext strip =
     [Step ''read_plain'', Step ''parse_plain'', Step ''annotate_chunks'',
      Step ''apply_transforms'', Step gen, Step dump, WriteFile ext strip]"

definition code_json :: "step list" where
  "code_json =
     [Step ''read_plain'', Step ''parse_plain'', Step ''annotate_chunks'',
      Step ''encode_json'', Step ''dump_json'', WriteFile ''.io.json'' []]"

definition docutils_pipeline :: "string \<Rightarrow> string list \<Rightarrow> step list" where
  "docutils_pipeline ext strip =
     [Step ''read_plain'', Step ''register_docutils'', Step ''gen_docutils'',
      Step ''copy_assets'', WriteFile ext strip]"

definition lint_pipeline :: "string list \<Rightarrow> step list" where
  "lint_pipeline strip =
     [Step ''read_plain'', Step ''register_docutils'', Step ''lint_docutils'',
      WriteFile ''.lint.json'' strip]"

definition PIPELINES :: "(string \<times> (string \<times> step list) list) list" where
  "PIPELINES =
     [(''coq.json'',
         [(''json'', json_pipeline [''.json'']),
          (''snippets-html'',
             json_snippets ''gen_html_snippets'' ''dump_html_snippets'' ''.snippets.html''
               [''.v'', ''.json'']),
          (''snippets-latex'',
             json_snippets ''gen_latex_snippets'' ''dump_latex_snippets'' ''.snippets.tex''
               [''.v'', ''.json''])]),
      (''lean3.json'',
         [(''json'', json_pipeline [''.json'']),
          (''snippets-html'',
             json_snippets ''gen_html_snippets'' ''dump_html_snippets'' ''.snippets.html''
               [''.lean'', ''.lean3'', ''.json'']),
          (''snippets-latex'',
             json_snippets ''gen_latex_snippets'' ''dump_latex_snippets'' ''.snippets.tex''
               [''.lean'', ''.lean3'', ''.json''])]),
      (''coq'',
         [(''null'', code_null),
          (''webpage'', code_webpage []),
          (''snippets-html'',
             code_snippets ''gen_html_snippets'' ''dump_html_snippets'' ''.snippets.html''
               [''.v'']),
          (''snippets-latex'',
             code_snippets ''gen_latex_snippets'' ''dump_latex_snippets'' ''.snippets.tex''
               [''.v'']),
          (''lint'', lint_pipeline [''.v'']),
          (''rst'', [Step ''read_plain'', Step ''code_to_rst'', WriteFile ''.rst'' []]),
          (''json'', code_json)]),
      (''lean3'',
         [(''null'', code_null),
          (''webpage'', code_webpage []),
          (''snippets-html'',
             code_snippets ''gen_html_snippets'' ''dump_html_snippets'' ''.snippets.html''
               [''.lean'', ''.lean3'']),
          (''snippets-latex'',
             code_snippets ''gen_latex_snippets'' ''dump_latex_snippets'' ''.snippets.tex''
               [''.lean'', ''.lean3'']),
          (''json'', code_json)]),
      (''coq+rst'',
         [(''webpage'', docutils_pipeline ''.html'' [''.v'', ''.rst'']),
          (''latex'', docutils_pipeline ''.tex'' [''.v'', ''.rst'']),
          (''lint'', lint_pipeline [''.v'', ''.rst'']),
          (''rst'',
             [Step ''read_plain'', Step ''code_to_rst'',
              WriteFile ''.v.rst'' [''.v'', ''.rst'']])]),
      (''coqdoc'',
         [(''webpage'',
             [Step ''read_plain'', Step ''parse_plain'', Step ''annotate_chunks'',
              Step ''gen_html_snippets_with_coqdoc'', Step ''dump_html_standalone'',
              Step ''copy_assets'', WriteFile ''.html'' [''.v'']])]),
      (''rst'',
         [(''webpage'', docutils_pipeline ''.html'' [''.v'', ''.lean'', ''.lean3'', ''.rst'']),
          (''latex'', docutils_pipeline ''.tex'' [''.v'', ''.lean'', ''.lean3'', ''.rst'']),
          (''lint'', lint_pipeline [''.v'', ''.lean'', ''.lean3'', ''.rst'']),
          (''coq'',
             [Step ''read_plain'', Step ''rst_to_code'',
              WriteFile ''.v'' [''.v'', ''.lean'', ''.lean3'', ''.rst'']]),
          (''coq+rst'',
             [Step ''read_plain'', Step ''rst_to_code'',
              WriteFile ''.v'' [''.v'', ''.lean'', ''.lean3'', ''.rst'']])]),
      (''md'',
         [(''webpage'', docutils_pipeline ''.html'' [''.v'', ''.lean'', ''.lean3'', ''.md'']),
          (''latex'', docutils_pipeline ''.tex'' [''.v'', ''.lean'', ''.lean3'', ''.md'']),
          (''lint'', lint_pipeline [''.v'', ''.lean'', ''.lean3'', ''.md''])])]"

definition FRONTENDS_BY_EXTENSION :: "(string \<times> string) list" where
  "FRONTENDS_BY_EXTENSION =
     [(''.v'', ''coq+rst''), (''.lean'', ''lean3''), (''.lean3'', ''lean3''),
      (''.v.json'', ''coq.json''), (''.lean3.json'', ''lean3.json''),
      (''.rst'', ''rst''), (''.md'', ''md'')]"

definition BACKENDS_BY_EXTENSION :: "(string \<times> string) list" where
  "BACKENDS_BY_EXTENSION =
     [(''.v'', ''coq''), (''.lean'', ''lean3''),
      (''.json'', ''json''), (''.rst'', ''rst''),
      (''.lint.json'', ''lint''),
      (''.snippets.html'', ''snippets-html''),
      (''.snippets.tex'', ''snippets-latex''),
      (''.v.html'', ''webpage''), (''.html'', ''webpage''),
      (''.v.tex'', ''latex''), (''.tex'', ''latex'')]"

definition DEFAULT_BACKENDS :: "(string \<times> string) list" where
  "DEFAULT_BACKENDS =
     [(''coq.json'', ''json''), (''lean3.json'', ''json''), (''coq'', ''webpage''),
      (''coqdoc'', ''webpage''), (''coq+rst'', ''webpage''), (''lean3'', ''webpage''),
      (''rst'', ''webpage''), (''md'', ''webpage'')]"

text \<open>The message templates of the two \<^verbatim>\<open>ArgumentTypeError\<close>s.\<close>

definition MSG_NOT_SURE :: string where
  "MSG_NOT_SURE = ''{}: Not sure what to do with {!r}.'' @ [CHR 0x0A] @ ''Try passing {}?''"

definition MSG_UNSUPPORTED :: string where
  "MSG_UNSUPPORTED =
     ''argument --backend: Frontend {!r} does not support backend {!r}: expecting one of {}''"

fun infer_mode :: "string \<Rightarrow> string \<Rightarrow> string \<Rightarrow> (string \<times> string) list \<Rightarrow> error + string" where
  "infer_mode fpath kind arg [] =
     Inl (ArgumentTypeError MSG_NOT_SURE [Raw kind, Repr fpath, Raw arg])"
| "infer_mode fpath kind arg ((ext, mode) # table) =
     (if suffix ext fpath then Inr mode else infer_mode fpath kind arg table)"

definition infer_frontend :: "string \<Rightarrow> error + string" where
  "infer_frontend fpath = infer_mode fpath ''input'' ''--frontend'' FRONTENDS_BY_EXTENSION"

definition infer_backend :: "string \<Rightarrow> string option \<Rightarrow> error + string" where
  "infer_backend fe out_fpath =
     (case out_fpath of
        Some p \<Rightarrow>
          if p \<noteq> [] then infer_mode p ''output'' ''--backend'' BACKENDS_BY_EXTENSION
          else (case map_of DEFAULT_BACKENDS fe of None \<Rightarrow> Inl KeyError | Some b \<Rightarrow> Inr b)
      | None \<Rightarrow> (case map_of DEFAULT_BACKENDS fe of None \<Rightarrow> Inl KeyError | Some b \<Rightarrow> Inr b))"

text \<open>The parsed command line, as far as the resolution of pipelines reads it.\<close>

record args =
  args_frontend :: "string option"
  args_backend :: "string option"
  args_output :: "string option"
  args_input :: "string list"

text \<open>\<^verbatim>\<open>args.frontend or infer_frontend(fpath)\<close>, and the same for the backend.\<close>

definition resolve_frontend :: "string \<Rightarrow> args \<Rightarrow> error + string" where
  "resolve_frontend fpath a =
     (case args_frontend a of
        Some f \<Rightarrow> if f \<noteq> [] then Inr f else infer_frontend fpath
      | None \<Rightarrow> infer_frontend fpath)"

definition resolve_backend :: "string \<Rightarrow> args \<Rightarrow> error + string" where
  "resolve_backend fe a =
     (case args_backend a of
        Some b \<Rightarrow> if b \<noteq> [] then Inr b else infer_backend fe (args_output a)
      | None \<Rightarrow> infer_backend fe (args_output a))"

definition resolve_pipeline :: "string \<Rightarrow> args \<Rightarrow> error + string \<times> string \<times> step list" where
  "resolve_pipeline fpath a =
     (case resolve_frontend fpath a of
        Inl e \<Rightarrow> Inl e
      | Inr fe \<Rightarrow>
          (case map_of PIPELINES fe of
             None \<Rightarrow> Inl AssertionError
           | Some supported_backends \<Rightarrow>
               (case resolve_backend fe a of
                  Inl e \<Rightarrow> Inl e
                | Inr be \<Rightarrow>
                    (case map_of supported_backends be of
                       None \<Rightarrow>
                         Inl (ArgumentTypeError MSG_UNSUPPORTED
                                [Repr fe, Repr be, JoinRepr '', '' (map fst supported_backends)])
                     | Some pipeline \<Rightarrow> Inr (fe, be, pipeline)))))"

text \<open>
  \<^verbatim>\<open>args.pipelines\<close>, the last assignment of \<^verbatim>\<open>post_process_arguments\<close>: every input is
  resolved, in order, and the first failure is raised. (The checks of other options
  that the function makes before are not modelled.)
\<close>

fun resolve_pipelines ::
  "string list \<Rightarrow> args \<Rightarrow> error + (string \<times> string \<times> string \<times> step list) list" where
  "resolve_pipelines [] a = Inr []"
| "resolve_pipelines (fpath # rest) a =
     (case resolve_pipeline fpath a of
        Inl e \<Rightarrow> Inl e
      | Inr p \<Rightarrow>
          (case resolve_pipelines rest a of Inl e \<Rightarrow> Inl e | Inr ps \<Rightarrow> Inr ((fpath, p) # ps)))"

definition parse_arguments ::
  "args \<Rightarrow> error + (string \<times> string \<times> string \<times> step list) list" where
  "parse_arguments a = resolve_pipelines (args_input a) a"

text \<open>
  The executor. \<^verbatim>\<open>call_pipeline_step(step, state, ctx)\<close> is an argument, since the
  steps are functions of other modules; the context is represented by the path, the
  frontend and the backend. The executor returns, besides its result, the list of the
  steps it called, in order.
\<close>

type_synonym ctx = "string \<times> string \<times> string"
type_synonym call = "step \<Rightarrow> pyval \<Rightarrow> ctx \<Rightarrow> error + pyval"

fun run_pipeline :: "call \<Rightarrow> ctx \<Rightarrow> pyval \<Rightarrow> step list \<Rightarrow> (error + pyval) \<times> (ctx \<times> step) list" where
  "run_pipeline call_pipeline_step c state [] = (Inr state, [])"
| "run_pipeline call_pipeline_step c state (s # pipeline) =
     (case call_pipeline_step s state c of
        Inl e \<Rightarrow> (Inl e, [(c, s)])
      | Inr state' \<Rightarrow>
          (let (r, trace) = run_pipeline call_pipeline_step c state' pipeline
           in (r, (c, s) # trace)))"

fun process_pipelines ::
  "call \<Rightarrow> (string \<times> string \<times> string \<times> step list) list \<Rightarrow> (error + unit) \<times> (ctx \<times> step) list" where
  "process_pipelines call_pipeline_step [] = (Inr (), [])"
| "process_pipelines call_pipeline_step ((fpath, (fe, be, pipeline)) # rest) =
     (case run_pipeline call_pipeline_step (fpath, fe, be) VNone pipeline of
        (Inl e, trace) \<Rightarrow> (Inl e, trace)
      | (Inr state, trace) \<Rightarrow>
          (let (r, trace') = process_pipelines call_pipeline_step rest in (r, trace @ trace')))"

definition main :: "call \<Rightarrow> args \<Rightarrow> (error + unit) \<times> (ctx \<times> step) list" where
  "main call_pipeline_step a =
     (case parse_arguments a of
        Inl e \<Rightarrow> (Inl e, [])
      | Inr pipelines \<Rightarrow> process_pipelines call_pipeline_step pipelines)"

lemma resolve_pipelines_fails:
  "fpath \<in> set inputs \<Longrightarrow> resolve_pipeline fpath a = Inl e \<Longrightarrow>
   \<exists>e'. resolve_pipelines inputs a = Inl e'"
  by (induction inputs) (auto split: sum.splits)

lemma resolve_pipeline_unsupported:
  assumes "resolve_frontend fpath a = Inr fe"
    and "map_of PIPELINES fe = Some supported_backends"
    and "resolve_backend fe a = Inr be"
    and "be \<notin> fst ` set supported_backends"
  shows "resolve_pipeline fpath a =
           Inl (ArgumentTypeError MSG_UNSUPPORTED
                  [Repr fe, Repr be, JoinRepr '', '' (map fst supported_backends)])"
proof -
  have "map_of supported_backends be = None"
    using assms(4) by (simp add: map_of_eq_None_iff)
  then show ?thesis using assms(1-3) by (simp add: resolve_pipeline_def)
qed

text \<open>
  Claim C8 (unsupported backend). For every input document whose frontend, given or
  inferred, is a frontend of \<^verbatim>\<open>PIPELINES\<close> and whose backend, given or inferred, is not
  among the backends of that frontend, \<^verbatim>\<open>resolve_pipeline\<close> raises an
  \<^verbatim>\<open>ArgumentTypeError\<close> whose message is formatted from the frontend, the backend and
  the backends that the frontend supports; and the program ends with an error without
  having called a single pipeline step, of this document or of any other.
\<close>

theorem unsupported_backend_error:
  assumes "fpath \<in> set (args_input a)"
    and "resolve_frontend fpath a = Inr fe"
    and "map_of PIPELINES fe = Some supported_backends"
    and "resolve_backend fe a = Inr be"
    and "be \<notin> fst ` set supported_backends"
  shows "resolve_pipeline fpath a =
           Inl (ArgumentTypeError MSG_UNSUPPORTED
                  [Repr fe, Repr be, JoinRepr '', '' (map fst supported_backends)]) \<and>
         (\<exists>e. main call_pipeline_step a = (Inl e, []))"
proof -
  have r: "resolve_pipeline fpath a =
      Inl (ArgumentTypeError MSG_UNSUPPORTED
             [Repr fe, Repr be, JoinRepr '', '' (map fst supported_backends)])"
    using resolve_pipeline_unsupported [OF assms(2-5)] .
  from resolve_pipelines_fails [OF assms(1) r]
  obtain e where "parse_arguments a = Inl e" by (auto simp: parse_arguments_def)
  then have "main call_pipeline_step a = (Inl e, [])" by (simp add: main_def)
  with r show ?thesis by blast
qed

text \<open>A command line for evaluating the resolution, and the backends of \<^verbatim>\<open>coq+rst\<close>.\<close>

definition sample_args :: args where
  "sample_args =
     \<lparr>args_frontend = None, args_backend = Some ''json'', args_output = None,
      args_input = [''intro.rst'', ''proofs.v'']\<rparr>"

definition coq_rst_backends :: "(string \<times> step list) list" where
  "coq_rst_backends =
     [(''webpage'', docutils_pipeline ''.html'' [''.v'', ''.rst'']),
      (''latex'', docutils_pipeline ''.tex'' [''.v'', ''.rst'']),
      (''lint'', lint_pipeline [''.v'', ''.rst'']),
      (''rst'',
         [Step ''read_plain'', Step ''code_to_rst'',
          WriteFile ''.v.rst'' [''.v'', ''.rst'']])]"

text \<open>
  Two inputs with the backend \<^verbatim>\<open>json\<close> requested: \<^verbatim>\<open>proofs.v\<close> is inferred to be
  \<^verbatim>\<open>coq+rst\<close>, which has no such backend.
\<close>

theorem unsupported_backend_error_witness:
  "''proofs.v'' \<in> set (args_input sample_args) \<and>
   resolve_frontend ''proofs.v'' sample_args = Inr ''coq+rst'' \<and>
   map_of PIPELINES ''coq+rst'' = Some coq_rst_backends \<and>
   resolve_backend ''coq+rst'' sample_args = Inr ''json'' \<and>
   ''json'' \<notin> fst ` set coq_rst_backends \<and>
   resolve_pipeline ''proofs.v'' sample_args =
     Inl (ArgumentTypeError MSG_UNSUPPORTED
            [Repr ''coq+rst'', Repr ''json'',
             JoinRepr '', '' [''webpage'', ''latex'', ''lint'', ''rst'']]) \<and>
   (\<exists>e. main (\<lambda>s state c. Inr state) sample_args = (Inl e, []))"
proof -
  have h1: "''proofs.v'' \<in> set (args_input sample_args)"
    by (simp add: sample_args_def)
  have h2: "resolve_frontend ''proofs.v'' sample_args = Inr ''coq+rst''"
    by (simp add: resolve_frontend_def sample_args_def infer_frontend_def
        FRONTENDS_BY_EXTENSION_def suffix_to_prefix)
  have h3: "map_of PIPELINES ''coq+rst'' = Some coq_rst_backends"
    by (simp add: PIPELINES_def coq_rst_backends_def)
  have h4: "resolve_backend ''coq+rst'' sample_args = Inr ''json''"
    by (simp add: resolve_backend_def sample_args_def)
  have h5: "''json'' \<notin> fst ` set coq_rst_backends"
    by (simp add: coq_rst_backends_def)
  have names: "map fst coq_rst_backends = [''webpage'', ''latex'', ''lint'', ''rst'']"
    by (simp add: coq_rst_backends_def)
  from unsupported_backend_error [OF h1 h2 h3 h4 h5, of "\<lambda>s state c. Inr state"] h1 h2 h3 h4 h5
  show ?thesis unfolding names by blast
qed

end
